theory Spec2Isabelle
  imports Main "HOL-Library.Word" "HOL-Library.Tree"
begin

section \<open>Data model\<close>

text \<open>
  The declarations of \<^verbatim>\<open>relayd.h\<close> are not among the sources; the records below carry
  the fields that the functions of \<^verbatim>\<open>ca.c\<close> and \<^verbatim>\<open>relayd.c\<close> read and write.
  A flags word is modelled as the set of the \<^verbatim>\<open>F_*\<close> bits that are set in it (each macro
  is one bit), so \<^verbatim>\<open>flags & ~(A|B)\<close> is set difference and
  \<^verbatim>\<open>(flags & (A|B)) == 0\<close> is an empty intersection.
\<close>

type_synonym objid_t = "32 word"
type_synonym bytes = "8 word list"

datatype flag =
  F_BACKUP | F_USED | F_SSL | F_SSLCLIENT | F_SSLINSPECT | F_NEEDPF | F_BIT nat

datatype config_what =
  CONFIG_TABLES | CONFIG_RDRS | CONFIG_RELAYS | CONFIG_PROTOS | CONFIG_ROUTES | CONFIG_RTS
  | CONFIG_CA_ENGINE

definition CONFIG_ALL :: "config_what set" where
  "CONFIG_ALL = {CONFIG_TABLES, CONFIG_RDRS, CONFIG_RELAYS, CONFIG_PROTOS, CONFIG_ROUTES,
     CONFIG_RTS, CONFIG_CA_ENGINE}"

text \<open>A reset scope (\<^verbatim>\<open>u_int reset\<close>) is the set of the categories whose \<^verbatim>\<open>CONFIG_*\<close> bit is
  set; \<^verbatim>\<open>CONFIG_RELOAD\<close> is the scope with no category bit set.\<close>

definition CONFIG_RELOAD :: "config_what set" where
  "CONFIG_RELOAD = {}"

datatype privsep_procid = PROC_PARENT | PROC_HCE | PROC_RELAY | PROC_PFE | PROC_CA

text \<open>The process ids below \<^verbatim>\<open>PROC_MAX\<close>, in the order \<^verbatim>\<open>for (id = 0; id < PROC_MAX; id++)\<close>
  visits them (the order of \<^verbatim>\<open>enum privsep_procid\<close>; it only fixes the order in which the
  messages of a broadcast are queued).\<close>

definition proc_ids :: "privsep_procid list" where
  "proc_ids = [PROC_PARENT, PROC_HCE, PROC_RELAY, PROC_PFE, PROC_CA]"

datatype imsg_type =
  IMSG_CFG_DONE | IMSG_CFG_RELAY | IMSG_CTL_START | IMSG_CTL_RESET | IMSG_CTL_RELOAD
  | IMSG_CTL_SHUTDOWN | IMSG_CA_PRIVENC | IMSG_CA_PRIVDEC | IMSG_BINDANY | IMSG_SCRIPT
  | IMSG_TYPE nat

text \<open>Keys of the TLS library are opaque handles; \<^verbatim>\<open>EVP_PKEY_get1_RSA\<close> gives the RSA key
  of an \<^verbatim>\<open>EVP_PKEY\<close>, or \<^verbatim>\<open>NULL\<close>.\<close>

datatype RSA = RSA nat

datatype EVP_PKEY = EVP_PKEY (EVP_PKEY_get1_RSA: "RSA option")

record ca_pkey =
  pkey :: EVP_PKEY
  pkey_id :: objid_t

text \<open>
  \<^verbatim>\<open>struct table_config\<close>: the fields \<^verbatim>\<open>id\<close>, \<^verbatim>\<open>rdrid\<close> and \<^verbatim>\<open>flags\<close> that
  \<^verbatim>\<open>table_findbyconf\<close> changes, and every other byte of the structure as \<open>tc_rest\<close>.
  In \<^verbatim>\<open>struct relay_config\<close> the lengths are \<^verbatim>\<open>off_t\<close>. The fields \<^verbatim>\<open>id\<close> and
  \<^verbatim>\<open>flags\<close> of the two structures carry a prefix here.
\<close>

record table_config =
  tc_id :: objid_t
  tc_rdrid :: objid_t
  tc_flags :: "flag set"
  tc_rest :: bytes

record table =
  conf :: table_config
  sendbuf :: "string option"

record relay_config =
  rc_id :: objid_t
  rc_flags :: "flag set"
  ssl_key_len :: int
  ssl_keyid :: objid_t
  ssl_cert_len :: int
  ssl_cakey_len :: int
  ssl_cakeyid :: objid_t
  ssl_cacert_len :: int

record relay =
  rl_conf :: relay_config
  rl_ssl_key :: "bytes option"
  rl_ssl_cert :: "bytes option"
  rl_ssl_cakey :: "bytes option"
  rl_ssl_cacert :: "bytes option"
  rl_ssl_pkey :: "EVP_PKEY option"
  rl_ssl_capkey :: "EVP_PKEY option"

text \<open>
  \<^verbatim>\<open>struct relayd\<close>. Redirections and protocols are only passed on by the functions
  modelled, so they are kept by their ids. The lists are the queues that \<^verbatim>\<open>config_init\<close>
  allocates; \<open>sc_pkeys\<close> may be \<^verbatim>\<open>NULL\<close>, which \<^verbatim>\<open>pkey_add\<close> checks. \<open>sc_prefork_relay\<close>
  is unsigned, \<open>sc_reload\<close> is an \<^verbatim>\<open>int\<close>.
\<close>

datatype rdr = Rdr objid_t

datatype protocol_id = Protocol objid_t

record relayd =
  sc_opts :: nat
  sc_flags :: "flag set"
  sc_conffile :: string
  sc_tables :: "table list"
  sc_rdrs :: "rdr list"
  sc_protos :: "protocol_id list"
  sc_relays :: "relay list"
  sc_pkeys :: "ca_pkey list option"
  sc_prefork_relay :: nat
  sc_reload :: int

text \<open>The key operation request and reply, \<^verbatim>\<open>struct ctl_keyop\<close>: the object id and four
  \<^verbatim>\<open>int\<close>s.\<close>

record ctl_keyop =
  cko_id :: objid_t
  cko_proc :: int
  cko_flen :: int
  cko_tlen :: int
  cko_padding :: int

text \<open>
  A received message of a key operation: its type, the \<^verbatim>\<open>struct ctl_keyop\<close> at the start
  of its data (\<open>None\<close> when the data is shorter than the structure, which
  \<^verbatim>\<open>IMSG_SIZE_CHECK\<close> refuses), and the bytes after it, so that
  \<^verbatim>\<open>IMSG_DATA_SIZE(imsg)\<close> is \<^verbatim>\<open>sizeof(cko)\<close> plus the length of the payload.
\<close>

record imsg =
  hdr_type :: imsg_type
  imsg_cko :: "ctl_keyop option"
  imsg_payload :: bytes

text \<open>An element of the \<^verbatim>\<open>iovec\<close> of a composed message: the \<^verbatim>\<open>ctl_keyop\<close> structure,
  or a buffer with its \<^verbatim>\<open>iov_len\<close> (a \<^verbatim>\<open>size_t\<close>, 64 bits).\<close>

datatype iovec = Iov_keyop ctl_keyop | Iov_bytes bytes "64 word"

text \<open>
  What a process does to the outside is kept as a trace: log lines (the format string,
  with \<^verbatim>\<open>__func__\<close> expanded), messages queued with \<^verbatim>\<open>proc_compose_imsg\<close>
  (process id, instance with \<^verbatim>\<open>-1\<close> for all instances, type, passed descriptor) or
  \<^verbatim>\<open>proc_composev_imsg\<close> and \<^verbatim>\<open>imsg_composev\<close> (the same, with the \<^verbatim>\<open>iovec\<close>), and the
  calls into \<^verbatim>\<open>config.c\<close>, \<^verbatim>\<open>proc.c\<close> and \<^verbatim>\<open>control.c\<close>, which are not among the sources.
\<close>

datatype action =
  Log_debug string | Log_warnx string | Log_info string
  | Compose_imsg privsep_procid int imsg_type int
  | Composev_imsg privsep_procid int imsg_type int "iovec list"
  | Config_settable table | Config_setrdr rdr | Config_setproto protocol_id
  | Config_setrule protocol_id | Config_setrelay relay | Config_setreset "config_what set"
  | Proc_kill | Control_cleanup

record privsep =
  ps_env :: relayd
  ps_pid :: "privsep_procid \<Rightarrow> int"
  ps_out :: "action list"

datatype error = Fatalx string | Segv

section \<open>The parent: configuration fan-out and reload\<close>

text \<open>Modelled from the spec: \<^verbatim>\<open>config_purge\<close> of \<^verbatim>\<open>config.c\<close>, which is not among the
  sources. The parent purges its in-memory configuration, category by category, for the
  categories of the reset scope.\<close>

definition config_purge :: "relayd \<Rightarrow> config_what set \<Rightarrow> relayd" where
  "config_purge env what =
     env\<lparr>sc_tables := (if CONFIG_TABLES \<in> what then [] else sc_tables env),
         sc_rdrs := (if CONFIG_RDRS \<in> what then [] else sc_rdrs env),
         sc_relays := (if CONFIG_RELAYS \<in> what then [] else sc_relays env),
         sc_protos := (if CONFIG_PROTOS \<in> what then [] else sc_protos env)\<rparr>"

text \<open>Appending to the trace.\<close>

definition emit :: "action list \<Rightarrow> privsep \<Rightarrow> privsep" where
  "emit acts ps = ps\<lparr>ps_out := ps_out ps @ acts\<rparr>"

text \<open>The check for SSL inspection in the relay loop of \<^verbatim>\<open>parent_configure\<close>.\<close>

definition ssl_inspect :: "relay \<Rightarrow> relay" where
  "ssl_inspect rlay =
     (if {F_SSL, F_SSLCLIENT} \<subseteq> rc_flags (rl_conf rlay)
         \<and> ssl_cacert_len (rl_conf rlay) \<noteq> 0 \<and> ssl_cakey_len (rl_conf rlay) \<noteq> 0
      then rlay\<lparr>rl_conf := (rl_conf rlay)\<lparr>rc_flags := insert F_SSLINSPECT (rc_flags (rl_conf rlay))\<rparr>\<rparr>
      else rlay)"

text \<open>The loop that sends \<^verbatim>\<open>IMSG_CFG_DONE\<close>; \<open>pf\<close> is what \<^verbatim>\<open>open(PF_SOCKET, O_RDWR)\<close>
  returns. The result is \<^verbatim>\<open>ret\<close> and the actions of the loop.\<close>

fun cfg_done_loop :: "privsep_procid \<Rightarrow> int \<Rightarrow> flag set \<Rightarrow> privsep_procid list \<Rightarrow> int \<times> action list" where
  "cfg_done_loop me pf flags [] = (0, [])"
| "cfg_done_loop me pf flags (i # ids) =
     (if i = me then cfg_done_loop me pf flags ids
      else if F_NEEDPF \<in> flags \<and> i = PROC_PFE \<and> pf = -1
        then (-1, [Log_debug ''parent_configure: cannot open pf socket''])
      else
        (let s = (if F_NEEDPF \<in> flags \<and> i = PROC_PFE then pf else -1);
             (ret, acts) = cfg_done_loop me pf flags ids
         in (ret, Compose_imsg i (-1) IMSG_CFG_DONE s # acts)))"

text \<open>
  \<^verbatim>\<open>parent_configure\<close>. \<open>privsep_process\<close> is the global of that name (\<^verbatim>\<open>PROC_PARENT\<close> in
  the parent). The \<^verbatim>\<open>config_set*\<close> calls are recorded in the trace in the order of the
  loops. The result is \<^verbatim>\<open>ret\<close> and the state after \<^verbatim>\<open>config_purge\<close> at \<^verbatim>\<open>done\<close>.
\<close>

definition parent_configure :: "privsep_procid \<Rightarrow> int \<Rightarrow> privsep \<Rightarrow> int \<times> privsep" where
  "parent_configure privsep_process pf ps =
     (let env = ps_env ps;
          rlays = map ssl_inspect (sc_relays env);
          sent = map Config_settable (sc_tables env) @ map Config_setrdr (sc_rdrs env)
                 @ map Config_setproto (sc_protos env) @ map Config_setrule (sc_protos env)
                 @ map Config_setrelay rlays;
          env1 = env\<lparr>sc_relays := rlays, sc_reload := 2 + (2 * int (sc_prefork_relay env))\<rparr>;
          (ret, acts) = cfg_done_loop privsep_process pf (sc_flags env) proc_ids
      in (ret, ps\<lparr>ps_env := config_purge env1 (CONFIG_ALL - {CONFIG_RELAYS}),
                  ps_out := ps_out ps @ sent @ acts\<rparr>))"

text \<open>\<open>load_config\<close> is the parser of \<^verbatim>\<open>parse.y\<close>, taken as a parameter: it returns
  its result code and the environment it leaves. A \<^verbatim>\<open>NULL\<close> file name is \<open>None\<close>.\<close>

definition reload_filename :: "relayd \<Rightarrow> string option \<Rightarrow> string" where
  "reload_filename env filename =
     (case filename of None \<Rightarrow> sc_conffile env
      | Some f \<Rightarrow> if f = [] then sc_conffile env else f)"

definition parent_reload ::
  "(string \<Rightarrow> relayd \<Rightarrow> int \<times> relayd) \<Rightarrow> privsep_procid \<Rightarrow> int \<Rightarrow> config_what set
     \<Rightarrow> string option \<Rightarrow> privsep \<Rightarrow> privsep" where
  "parent_reload load_config privsep_process pf reset filename ps =
     (if sc_reload (ps_env ps) \<noteq> 0
      then emit [Log_debug ''parent_reload: already in progress: %d pending''] ps
      else
        (let fname = reload_filename (ps_env ps) filename;
             ps1 = emit [Log_debug ''parent_reload: level %d config file %s''] ps;
             ps2 = ps1\<lparr>ps_env := config_purge (ps_env ps1) CONFIG_ALL\<rparr>
         in if reset = CONFIG_RELOAD then
              (let (r, env3) = load_config fname (ps_env ps2);
                   ps3 = emit (if r = -1
                               then [Log_debug ''parent_reload: failed to load config file %s'']
                               else []) (ps2\<lparr>ps_env := env3\<rparr>);
                   ps4 = emit [Config_setreset CONFIG_ALL] ps3;
                   (r', ps5) = parent_configure privsep_process pf ps4
               in emit (if r' = -1
                        then [Log_debug ''parent_reload: failed to commit config from %s'']
                        else []) ps5)
            else emit [Config_setreset reset] ps2))"

definition ctl_start_all :: "privsep_procid \<Rightarrow> action list" where
  "ctl_start_all privsep_process =
     map (\<lambda>i. Compose_imsg i (-1) IMSG_CTL_START (-1))
       (filter (\<lambda>i. i \<noteq> privsep_process) proc_ids)"

definition parent_configure_done :: "privsep_procid \<Rightarrow> privsep \<Rightarrow> privsep" where
  "parent_configure_done privsep_process ps =
     (if sc_reload (ps_env ps) = 0
      then emit [Log_warnx ''parent_configure_done: configuration already finished''] ps
      else
        (let ps1 = ps\<lparr>ps_env := (ps_env ps)\<lparr>sc_reload := sc_reload (ps_env ps) - 1\<rparr>\<rparr>
         in if sc_reload (ps_env ps1) = 0 then emit (ctl_start_all privsep_process) ps1
            else ps1))"

text \<open>A run of \<open>k\<close> acknowledgements (\<^verbatim>\<open>IMSG_CFG_DONE\<close> from a worker), one after another.\<close>

fun configure_done_n :: "privsep_procid \<Rightarrow> nat \<Rightarrow> privsep \<Rightarrow> privsep" where
  "configure_done_n me 0 ps = ps"
| "configure_done_n me (Suc k) ps = configure_done_n me k (parent_configure_done me ps)"

subsection \<open>Signals and shutdown\<close>

text \<open>\<^verbatim>\<open>parent_shutdown\<close>: the state in which the parent calls \<^verbatim>\<open>exit(0)\<close>.\<close>

definition parent_shutdown :: "privsep \<Rightarrow> privsep" where
  "parent_shutdown ps =
     emit [Proc_kill, Control_cleanup, Log_info ''parent terminating, pid %d'']
       (ps\<lparr>ps_env := config_purge (ps_env ps) CONFIG_ALL\<rparr>)"

datatype signal = SIGTERM | SIGINT | SIGCHLD | SIGHUP | SIGPIPE | SIG nat

text \<open>A wait status: \<^verbatim>\<open>WIFSIGNALED\<close> with \<^verbatim>\<open>WTERMSIG\<close>, \<^verbatim>\<open>WIFEXITED\<close> with
  \<^verbatim>\<open>WEXITSTATUS\<close>, or neither.\<close>

datatype wstatus = Signaled nat | Exited_with nat | Neither

datatype errno = EINTR | ECHILD | EINVAL | ENOSPC | EAFNOSUPPORT

datatype parent_outcome = Running privsep | Exited int privsep | Died error

text \<open>
  The \<^verbatim>\<open>do ... while\<close> loop of \<^verbatim>\<open>parent_sig_handler\<close>. The calls of
  \<^verbatim>\<open>waitpid(WAIT_ANY, &status, WNOHANG)\<close> are given as the list of what they return:
  the pid, the status and \<^verbatim>\<open>errno\<close>; past the end of the list \<^verbatim>\<open>waitpid\<close> has no
  child to report and returns 0. The result is \<^verbatim>\<open>die\<close> and the log lines.
\<close>

fun reap_children ::
  "(privsep_procid \<Rightarrow> int) \<Rightarrow> (int \<times> wstatus \<times> errno) list \<Rightarrow> bool \<Rightarrow> error + (bool \<times> action list)" where
  "reap_children pids [] die = Inr (die, [])"
| "reap_children pids ((pid, status, e) # ws) die =
     (if pid \<le> 0 then
        (if pid = -1 \<and> e = EINTR then reap_children pids ws die else Inr (die, []))
      else
        (case status of
           Neither \<Rightarrow> Inl (Fatalx ''unexpected cause of SIGCHLD'')
         | _ \<Rightarrow>
           (let fail = (case status of Signaled n \<Rightarrow> True | Exited_with c \<Rightarrow> c \<noteq> 0
                        | Neither \<Rightarrow> False);
                acts = (if fail \<and> pid \<in> set (map pids proc_ids)
                        then [Log_warnx ''lost child: %s %s''] else [])
            in case reap_children pids ws True of
                 Inl err \<Rightarrow> Inl err
               | Inr (d, acts') \<Rightarrow> Inr (d, acts @ acts'))))"

text \<open>\<^verbatim>\<open>parent_sig_handler\<close>: the parent goes on running, exits with a status, or dies of
  \<^verbatim>\<open>fatalx\<close>.\<close>

definition parent_sig_handler ::
  "(string \<Rightarrow> relayd \<Rightarrow> int \<times> relayd) \<Rightarrow> privsep_procid \<Rightarrow> int \<Rightarrow> signal
     \<Rightarrow> (int \<times> wstatus \<times> errno) list \<Rightarrow> privsep \<Rightarrow> parent_outcome" where
  "parent_sig_handler load_config privsep_process pf sig ws ps =
     (case sig of
        SIGHUP \<Rightarrow>
          Running (parent_reload load_config privsep_process pf CONFIG_RELOAD None
            (emit [Log_info ''parent_sig_handler: reload requested with SIGHUP''] ps))
      | SIGPIPE \<Rightarrow> Running ps
      | SIG n \<Rightarrow> Died (Fatalx ''unexpected signal'')
      | _ \<Rightarrow>
          (case reap_children (ps_pid ps) ws (sig \<noteq> SIGCHLD) of
             Inl err \<Rightarrow> Died err
           | Inr (die, acts) \<Rightarrow>
               if die then Exited 0 (parent_shutdown (emit acts ps))
               else Running (emit acts ps)))"

text \<open>
  The loop of \<^verbatim>\<open>parent_sig_handler\<close> as the specification describes it. \<open>reaped\<close> are the
  returns of \<^verbatim>\<open>waitpid\<close> that the loop looks at: it goes on after a child and after
  \<^verbatim>\<open>EINTR\<close>. A child has failed when it was killed by a signal or has exited with a
  status other than 0, and one line "lost child" is expected for every failed child that
  is one of the parent's processes. \<open>unexpected_cause\<close>: \<^verbatim>\<open>waitpid\<close> reports a child whose
  status is neither.
\<close>

definition reaped :: "(int \<times> wstatus \<times> errno) list \<Rightarrow> (int \<times> wstatus \<times> errno) list" where
  "reaped ws = takeWhile (\<lambda>(pid, status, e). 0 < pid \<or> (pid = -1 \<and> e = EINTR)) ws"

definition child_failed :: "wstatus \<Rightarrow> bool" where
  "child_failed status = (case status of Signaled n \<Rightarrow> True | Exited_with c \<Rightarrow> c \<noteq> 0 | Neither \<Rightarrow> False)"

definition lost_child_lines :: "(privsep_procid \<Rightarrow> int) \<Rightarrow> (int \<times> wstatus \<times> errno) list \<Rightarrow> action list" where
  "lost_child_lines pids ws =
     concat (map (\<lambda>(pid, status, e).
       if 0 < pid \<and> child_failed status \<and> list_ex (\<lambda>id. pids id = pid) proc_ids
       then [Log_warnx ''lost child: %s %s''] else []) ws)"

definition unexpected_cause :: "(int \<times> wstatus \<times> errno) list \<Rightarrow> bool" where
  "unexpected_cause ws = list_ex (\<lambda>(pid, status, e). 0 < pid \<and> status = Neither) (reaped ws)"

section \<open>Lookup of a table by its configuration\<close>

text \<open>The copy of a table's configuration with \<^verbatim>\<open>id\<close> and \<^verbatim>\<open>rdrid\<close> zeroed and
  \<^verbatim>\<open>F_USED|F_BACKUP\<close> cleared; \<open>tc_rest\<close> is every other byte of the structure, so
  \<^verbatim>\<open>bcmp\<close> of two copies is equality of the records.\<close>

definition table_conf_copy :: "table_config \<Rightarrow> table_config" where
  "table_conf_copy c = c\<lparr>tc_id := 0, tc_rdrid := 0, tc_flags := tc_flags c - {F_USED, F_BACKUP}\<rparr>"

fun table_findbyconf_loop :: "table_config \<Rightarrow> string option \<Rightarrow> table list \<Rightarrow> table option" where
  "table_findbyconf_loop a sb [] = None"
| "table_findbyconf_loop a sb (t # ts) =
     (let b = table_conf_copy (conf t)
      in if a = b \<and> ((sb = None \<and> sendbuf t = None)
                     \<or> (sb \<noteq> None \<and> sendbuf t \<noteq> None \<and> the sb = the (sendbuf t)))
         then Some t else table_findbyconf_loop a sb ts)"

definition table_findbyconf :: "relayd \<Rightarrow> table \<Rightarrow> table option" where
  "table_findbyconf env tb = table_findbyconf_loop (table_conf_copy (conf tb)) (sendbuf tb) (sc_tables env)"

text \<open>The equality the specification describes: the configurations are equal once
  \<open>id\<close> and \<open>rdrid\<close> are zeroed and \<open>F_USED\<close>, \<open>F_BACKUP\<close> cleared, and the send-buffers
  are both absent or equal strings.\<close>

definition same_table_spec :: "table \<Rightarrow> table \<Rightarrow> bool" where
  "same_table_spec tb t \<longleftrightarrow>
     (conf tb)\<lparr>tc_id := 0, tc_rdrid := 0, tc_flags := tc_flags (conf tb) - {F_USED, F_BACKUP}\<rparr>
       = (conf t)\<lparr>tc_id := 0, tc_rdrid := 0, tc_flags := tc_flags (conf t) - {F_USED, F_BACKUP}\<rparr>
     \<and> (case (sendbuf tb, sendbuf t) of
          (None, None) \<Rightarrow> True
        | (Some x, Some y) \<Rightarrow> x = y
        | _ \<Rightarrow> False)"

text \<open>Concrete values used by the witnesses.\<close>

definition env0 :: relayd where
  "env0 = \<lparr>sc_opts = 0, sc_flags = {}, sc_conffile = ''/usr/local/etc/relayd.conf'',
     sc_tables = [], sc_rdrs = [], sc_protos = [], sc_relays = [], sc_pkeys = Some [],
     sc_prefork_relay = 3, sc_reload = 0\<rparr>"

definition ps0 :: privsep where
  "ps0 = \<lparr>ps_env = env0, ps_pid = (\<lambda>i. case i of PROC_PARENT \<Rightarrow> 100 | PROC_HCE \<Rightarrow> 101
      | PROC_RELAY \<Rightarrow> 102 | PROC_PFE \<Rightarrow> 103 | PROC_CA \<Rightarrow> 104), ps_out = []\<rparr>"

definition relay0 :: relay where
  "relay0 = \<lparr>rl_conf = \<lparr>rc_id = 1, rc_flags = {}, ssl_key_len = 0, ssl_keyid = 0, ssl_cert_len = 0,
        ssl_cakey_len = 0, ssl_cakeyid = 0, ssl_cacert_len = 0\<rparr>,
     rl_ssl_key = None, rl_ssl_cert = None, rl_ssl_cakey = None, rl_ssl_cacert = None,
     rl_ssl_pkey = None, rl_ssl_capkey = None\<rparr>"

text \<open>A parent whose live configuration is one relay, with no reload pending, and a
  parser that fails and leaves the environment as it found it.\<close>

definition ps_live :: privsep where
  "ps_live = ps0\<lparr>ps_env := env0\<lparr>sc_relays := [relay0]\<rparr>\<rparr>"

definition load_config_fails :: "string \<Rightarrow> relayd \<Rightarrow> int \<times> relayd" where
  "load_config_fails fname env = (-1, env)"

definition table0 :: table where
  "table0 = \<lparr>conf = \<lparr>tc_id = 5, tc_rdrid = 2, tc_flags = {F_USED, F_SSL}, tc_rest = [1, 2, 3]\<rparr>,
     sendbuf = Some ''PING''\<rparr>"

section \<open>Host names\<close>

text \<open>\<^verbatim>\<open>tolower\<close> and \<^verbatim>\<open>isupper\<close> of the C locale, on bytes.\<close>

definition isupper :: "char \<Rightarrow> bool" where
  "isupper c \<longleftrightarrow> 65 \<le> (of_char c :: nat) \<and> (of_char c :: nat) \<le> 90"

definition tolower :: "char \<Rightarrow> char" where
  "tolower c = (if isupper c then char_of ((of_char c :: nat) + 32) else c)"

text \<open>Step 1 of \<^verbatim>\<open>canonicalize_host\<close>: the loop over \<^verbatim>\<open>host\<close>; \<open>name\<close> is
  \<^verbatim>\<open>name[0..j-1]\<close>. \<open>None\<close> is \<^verbatim>\<open>goto fail\<close>.\<close>

fun canon_scan :: "nat \<Rightarrow> string \<Rightarrow> string \<Rightarrow> string option" where
  "canon_scan len [] name = Some name"
| "canon_scan len (h # hs) name =
     (if length name \<ge> len - 1 then None
      else
        (let c = tolower h
         in if c = CHR ''.'' \<and> (name = [] \<or> last name = CHR ''.'')
            then canon_scan len hs name
            else canon_scan len hs (name @ [c])))"

text \<open>Step 2: the loop that removes trailing dots.\<close>

function canon_trim :: "string \<Rightarrow> string" where
  "canon_trim name =
     (if name = [] then []
      else if last name \<noteq> CHR ''.'' then name
      else canon_trim (butlast name))"
  by pat_completeness auto
termination
  by (relation "measure length") auto

text \<open>\<^verbatim>\<open>inet_pton\<close> and \<^verbatim>\<open>inet_ntop\<close> of the C library are parameters: \<open>pton\<close> gives the
  parsed address when \<^verbatim>\<open>inet_pton\<close> returns 1, \<open>ntop\<close> the printed address or the
  \<^verbatim>\<open>errno\<close> it fails with. A \<^verbatim>\<open>NULL\<close> result is \<open>Inl\<close> of the \<^verbatim>\<open>errno\<close>.\<close>

definition canonicalize_host ::
  "(string \<Rightarrow> 'a option) \<Rightarrow> ('a \<Rightarrow> nat \<Rightarrow> errno + string) \<Rightarrow> (string \<Rightarrow> 'b option)
     \<Rightarrow> ('b \<Rightarrow> nat \<Rightarrow> errno + string) \<Rightarrow> string \<Rightarrow> nat \<Rightarrow> errno + string" where
  "canonicalize_host pton4 ntop4 pton6 ntop6 host len =
     (if len < 2 then Inl EINVAL
      else
        (case pton4 host of
           Some sin4 \<Rightarrow> ntop4 sin4 len
         | None \<Rightarrow>
           (case pton6 host of
              Some sin6 \<Rightarrow> ntop6 sin6 len
            | None \<Rightarrow>
              (case canon_scan len host [] of
                 None \<Rightarrow> Inl EINVAL
               | Some name \<Rightarrow>
                   (let name' = canon_trim name
                    in if length name' \<le> 0 then Inl EINVAL else Inr name')))))"

text \<open>The canonical form in the words of the specification: the labels of the
  lower-cased name that are not empty, joined by single dots.\<close>

fun split_dots :: "string \<Rightarrow> string list" where
  "split_dots [] = [[]]"
| "split_dots (c # cs) =
     (if c = CHR ''.'' then [] # split_dots cs
      else (case split_dots cs of [] \<Rightarrow> [[c]] | l # ls \<Rightarrow> (c # l) # ls))"

fun join_dots :: "string list \<Rightarrow> string" where
  "join_dots [] = []"
| "join_dots [l] = l"
| "join_dots (l # l' # ls) = l @ CHR ''.'' # join_dots (l' # ls)"

definition canonical_form :: "string \<Rightarrow> string" where
  "canonical_form host = join_dots (filter (\<lambda>l. l \<noteq> []) (split_dots (map tolower host)))"

fun dotdot :: "string \<Rightarrow> bool" where
  "dotdot (a # b # cs) = ((a = CHR ''.'' \<and> b = CHR ''.'') \<or> dotdot (b # cs))"
| "dotdot cs = False"

text \<open>The labels that are not empty, joined (an auxiliary for the proofs).\<close>

definition joined :: "string list \<Rightarrow> string" where
  "joined ls = join_dots (filter (\<lambda>l. l \<noteq> []) ls)"

text \<open>Step 1 without the bound on the buffer (an auxiliary for the proofs).\<close>

fun squeeze :: "string \<Rightarrow> string \<Rightarrow> string" where
  "squeeze [] name = name"
| "squeeze (h # hs) name =
     (let c = tolower h
      in if c = CHR ''.'' \<and> (name = [] \<or> last name = CHR ''.'')
         then squeeze hs name
         else squeeze hs (name @ [c]))"

section \<open>The CA: private key operations\<close>

fun pkey_find_loop :: "ca_pkey list \<Rightarrow> objid_t \<Rightarrow> EVP_PKEY option" where
  "pkey_find_loop [] i = None"
| "pkey_find_loop (k # ks) i = (if pkey_id k = i then Some (pkey k) else pkey_find_loop ks i)"

text \<open>\<^verbatim>\<open>pkey_find\<close>; walking a list that was never allocated (\<^verbatim>\<open>sc_pkeys == NULL\<close>) is a
  fault.\<close>

definition pkey_find :: "relayd \<Rightarrow> objid_t \<Rightarrow> error + EVP_PKEY option" where
  "pkey_find env i =
     (case sc_pkeys env of None \<Rightarrow> Inl Segv | Some ks \<Rightarrow> Inr (pkey_find_loop ks i))"

definition pkey_add :: "relayd \<Rightarrow> EVP_PKEY \<Rightarrow> objid_t \<Rightarrow> error + relayd" where
  "pkey_add env k i =
     (case sc_pkeys env of
        None \<Rightarrow> Inl (Fatalx ''pkeys'')
      | Some ks \<Rightarrow> Inr (env\<lparr>sc_pkeys := Some (ks @ [\<lparr>pkey = k, pkey_id = i\<rparr>])\<rparr>))"

text \<open>
  \<^verbatim>\<open>ca_dispatch_relay\<close>. \<open>rsa_private\<close> stands for \<^verbatim>\<open>RSA_private_encrypt\<close> and
  \<^verbatim>\<open>RSA_private_decrypt\<close> of the TLS library, chosen by the message type: given
  \<^verbatim>\<open>flen\<close>, \<^verbatim>\<open>from\<close>, the zeroed buffer \<^verbatim>\<open>to\<close>, the key and the padding, it
  returns its result and the buffer. \<^verbatim>\<open>calloc(1, cko_tlen)\<close> of a negative length fails.
  The result is the return value and what was sent, or the \<^verbatim>\<open>fatalx\<close> the process ends with.
\<close>

definition ca_dispatch_relay ::
  "(imsg_type \<Rightarrow> int \<Rightarrow> bytes \<Rightarrow> bytes \<Rightarrow> RSA \<Rightarrow> int \<Rightarrow> int \<times> bytes) \<Rightarrow> relayd \<Rightarrow> imsg
     \<Rightarrow> error + (int \<times> action list)" where
  "ca_dispatch_relay rsa_private env imsg =
     (if hdr_type imsg \<noteq> IMSG_CA_PRIVENC \<and> hdr_type imsg \<noteq> IMSG_CA_PRIVDEC then Inr (-1, [])
      else
        (case imsg_cko imsg of
           None \<Rightarrow> Inl (Fatalx ''bad length imsg received'')
         | Some cko \<Rightarrow>
             if cko_proc cko > int (sc_prefork_relay env)
               then Inl (Fatalx ''ca_dispatch_relay: invalid relay proc'')
             else if int (length (imsg_payload imsg)) \<noteq> cko_flen cko
               then Inl (Fatalx ''ca_dispatch_relay: invalid key operation'')
             else
               (case pkey_find env (cko_id cko) of
                  Inl e \<Rightarrow> Inl e
                | Inr None \<Rightarrow> Inl (Fatalx ''ca_dispatch_relay: invalid relay key or id'')
                | Inr (Some k) \<Rightarrow>
                    (case EVP_PKEY_get1_RSA k of
                       None \<Rightarrow> Inl (Fatalx ''ca_dispatch_relay: invalid relay key or id'')
                     | Some rsa \<Rightarrow>
                         if cko_tlen cko < 0 then Inl (Fatalx ''ca_dispatch_relay: calloc'')
                         else
                           (let to = replicate (nat (cko_tlen cko)) 0;
                                (tlen, to') = rsa_private (hdr_type imsg) (cko_flen cko)
                                                (imsg_payload imsg) to rsa (cko_padding cko);
                                cko' = cko\<lparr>cko_tlen := tlen\<rparr>;
                                iov = Iov_keyop cko'
                                      # (if cko_tlen cko' \<noteq> 0
                                         then [Iov_bytes to' (word_of_int (cko_tlen cko'))] else [])
                            in Inr (0, [Composev_imsg PROC_RELAY (cko_proc cko') (hdr_type imsg)
                                          (-1) iov]))))))"

subsection \<open>The RSA method of the relay\<close>

text \<open>The \<^verbatim>\<open>RSA\<close> handle as the relay has it: the object id in its extended data
  (\<^verbatim>\<open>RSA_get_ex_data(rsa, 0)\<close>, \<open>None\<close> for \<^verbatim>\<open>NULL\<close>) and \<^verbatim>\<open>RSA_size(rsa)\<close>.\<close>

record rsa_handle =
  rsa_ex_data :: "objid_t option"
  rsa_size :: int

text \<open>
  What the channel to the CA delivers: each \<^verbatim>\<open>imsg_read\<close> fails (\<^verbatim>\<open>-1\<close>), finds the
  pipe closed (\<^verbatim>\<open>0\<close>), or reads data, after which \<^verbatim>\<open>imsg_get\<close> fails or yields the
  complete messages in the buffer, one per call, and then \<^verbatim>\<open>0\<close>. When nothing more is
  delivered the blocking read never returns.
\<close>

datatype get_result = Get_error | Get_imsg imsg

datatype read_result = Read_error | Read_closed | Read_ok "get_result list"

datatype rsa_result = Rsa_fatalx string | Rsa_blocked | Rsa_return int bytes

text \<open>The two nested loops of \<^verbatim>\<open>rsae_send_imsg\<close>; the result is \<^verbatim>\<open>ret\<close> and the bytes
  copied to \<^verbatim>\<open>to\<close>.\<close>

fun rsae_recv :: "imsg_type \<Rightarrow> read_result list \<Rightarrow> rsa_result" where
  "rsae_recv cmd [] = Rsa_blocked"
| "rsae_recv cmd (Read_error # rs) = Rsa_fatalx ''imsg_read''"
| "rsae_recv cmd (Read_closed # rs) = Rsa_fatalx ''pipe closed''"
| "rsae_recv cmd (Read_ok [] # rs) = rsae_recv cmd rs"
| "rsae_recv cmd (Read_ok (Get_error # gs) # rs) = Rsa_fatalx ''imsg_get error''"
| "rsae_recv cmd (Read_ok (Get_imsg m # gs) # rs) =
     (if hdr_type m \<noteq> cmd then Rsa_fatalx ''invalid response''
      else
        (case imsg_cko m of
           None \<Rightarrow> Rsa_fatalx ''bad length imsg received''
         | Some cko \<Rightarrow>
             if int (length (imsg_payload m)) \<noteq> cko_tlen cko then Rsa_fatalx ''data size''
             else Rsa_return (cko_tlen cko)
                    (if cko_tlen cko \<noteq> 0 then imsg_payload m else [])))"

definition rsae_send_imsg ::
  "int \<Rightarrow> int \<Rightarrow> bytes \<Rightarrow> rsa_handle \<Rightarrow> int \<Rightarrow> imsg_type \<Rightarrow> read_result list
     \<Rightarrow> rsa_result \<times> action list" where
  "rsae_send_imsg proc_id flen from rsa padding cmd reads =
     (case rsa_ex_data rsa of
        None \<Rightarrow> (Rsa_return 0 [], [])
      | Some i \<Rightarrow>
          (let cko = \<lparr>cko_id = i, cko_proc = proc_id, cko_flen = flen, cko_tlen = rsa_size rsa,
                      cko_padding = padding\<rparr>
           in (rsae_recv cmd reads,
               [Composev_imsg PROC_CA proc_id cmd (-1)
                  [Iov_keyop cko, Iov_bytes from (word_of_int flen)]])))"

text \<open>\<open>rsa_default\<close> is the private-key entry point of the default method.\<close>

definition rsae_priv_enc ::
  "(int \<Rightarrow> bytes \<Rightarrow> rsa_handle \<Rightarrow> int \<Rightarrow> rsa_result) \<Rightarrow> int \<Rightarrow> int \<Rightarrow> bytes \<Rightarrow> rsa_handle \<Rightarrow> int
     \<Rightarrow> read_result list \<Rightarrow> rsa_result \<times> action list" where
  "rsae_priv_enc rsa_default proc_id flen from rsa padding reads =
     (if rsa_ex_data rsa \<noteq> None
      then rsae_send_imsg proc_id flen from rsa padding IMSG_CA_PRIVENC reads
      else (rsa_default flen from rsa padding, []))"

definition rsae_priv_dec ::
  "(int \<Rightarrow> bytes \<Rightarrow> rsa_handle \<Rightarrow> int \<Rightarrow> rsa_result) \<Rightarrow> int \<Rightarrow> int \<Rightarrow> bytes \<Rightarrow> rsa_handle \<Rightarrow> int
     \<Rightarrow> read_result list \<Rightarrow> rsa_result \<times> action list" where
  "rsae_priv_dec rsa_default proc_id flen from rsa padding reads =
     (if rsa_ex_data rsa \<noteq> None
      then rsae_send_imsg proc_id flen from rsa padding IMSG_CA_PRIVDEC reads
      else (rsa_default flen from rsa padding, []))"

text \<open>Concrete values: a CA with one RSA key under object id 7, a request for the unknown
  id 9, a request for id 7, and operations of the TLS library that return 0 or sign.\<close>

definition env_ca :: relayd where
  "env_ca = env0\<lparr>sc_pkeys := Some [\<lparr>pkey = EVP_PKEY (Some (RSA 1)), pkey_id = 7\<rparr>]\<rparr>"

definition req9 :: imsg where
  "req9 = \<lparr>hdr_type = IMSG_CA_PRIVDEC,
     imsg_cko = Some \<lparr>cko_id = 9, cko_proc = 0, cko_flen = 2, cko_tlen = 4, cko_padding = 1\<rparr>,
     imsg_payload = [1, 2]\<rparr>"

definition req7 :: imsg where
  "req7 = \<lparr>hdr_type = IMSG_CA_PRIVDEC,
     imsg_cko = Some \<lparr>cko_id = 7, cko_proc = 0, cko_flen = 2, cko_tlen = 4, cko_padding = 1\<rparr>,
     imsg_payload = [1, 2]\<rparr>"

definition rsa_returns_zero :: "imsg_type \<Rightarrow> int \<Rightarrow> bytes \<Rightarrow> bytes \<Rightarrow> RSA \<Rightarrow> int \<Rightarrow> int \<times> bytes" where
  "rsa_returns_zero t flen from to rsa padding = (0, to)"

definition reply_empty :: imsg where
  "reply_empty = \<lparr>hdr_type = IMSG_CA_PRIVDEC,
     imsg_cko = Some \<lparr>cko_id = 7, cko_proc = 0, cko_flen = 2, cko_tlen = 0, cko_padding = 1\<rparr>,
     imsg_payload = []\<rparr>"

subsection \<open>Loading the keys and purging the PEM copies\<close>

text \<open>
  A buffer held through a \<^verbatim>\<open>char *\<close> is \<open>Some\<close> of its bytes, \<open>None\<close> for \<^verbatim>\<open>NULL\<close>.
  \<^verbatim>\<open>purge_key\<close> returns the pointer it leaves and the blocks it hands to \<^verbatim>\<open>free\<close>, with
  the contents they have at that moment. \<^verbatim>\<open>bzero\<close> over more bytes than the buffer has
  (or with a negative \<^verbatim>\<open>off_t\<close>, a huge \<^verbatim>\<open>size_t\<close>) runs past the buffer: a fault.
\<close>

definition bzero :: "bytes \<Rightarrow> nat \<Rightarrow> bytes" where
  "bzero key n = replicate n 0 @ drop n key"

definition purge_key :: "bytes option \<Rightarrow> int \<Rightarrow> error + (bytes option \<times> bytes list)" where
  "purge_key ptr len =
     (case ptr of
        None \<Rightarrow> Inr (None, [])
      | Some key \<Rightarrow>
          if len = 0 then Inr (Some key, [])
          else if len < 0 \<or> int (length key) < len then Inl Segv
          else Inr (None, [bzero key (nat len)]))"

text \<open>
  One of the two blocks of \<^verbatim>\<open>ca_launch\<close> that read a private key: the memory BIO over the
  PEM buffer, the parse, \<^verbatim>\<open>pkey_add\<close> and \<^verbatim>\<open>purge_key\<close>. \<open>bio_new\<close> and \<open>pem_read\<close> stand
  for \<^verbatim>\<open>BIO_new_mem_buf\<close> and \<^verbatim>\<open>PEM_read_bio_PrivateKey\<close> of the TLS library.
\<close>

definition ca_launch_key ::
  "(bytes option \<Rightarrow> int \<Rightarrow> 'bio option) \<Rightarrow> ('bio \<Rightarrow> EVP_PKEY option) \<Rightarrow> relayd \<Rightarrow> bytes option
     \<Rightarrow> int \<Rightarrow> objid_t \<Rightarrow> error + (EVP_PKEY \<times> relayd \<times> bytes option \<times> bytes list)" where
  "ca_launch_key bio_new pem_read env ptr len keyid =
     (case bio_new ptr len of
        None \<Rightarrow> Inl (Fatalx ''ca_launch: key'')
      | Some bio \<Rightarrow>
          (case pem_read bio of
             None \<Rightarrow> Inl (Fatalx ''ca_launch: PEM'')
           | Some k \<Rightarrow>
               (case pkey_add env k keyid of
                  Inl e \<Rightarrow> Inl e
                | Inr env' \<Rightarrow>
                    (case purge_key ptr len of
                       Inl e \<Rightarrow> Inl e
                     | Inr (ptr', freed) \<Rightarrow> Inr (k, env', ptr', freed)))))"

text \<open>Sequencing of steps that may end the process: the first error ends the run.\<close>

definition bind_err :: "error + 'a \<Rightarrow> ('a \<Rightarrow> error + 'b) \<Rightarrow> error + 'b" where
  "bind_err m f = (case m of Inl e \<Rightarrow> Inl e | Inr x \<Rightarrow> f x)"

text \<open>The four \<^verbatim>\<open>if\<close> blocks of the loop body of \<^verbatim>\<open>ca_launch\<close>, each with the relay
  (and the environment) it leaves and the blocks it frees.\<close>

definition ca_launch_ssl_key ::
  "(bytes option \<Rightarrow> int \<Rightarrow> 'bio option) \<Rightarrow> ('bio \<Rightarrow> EVP_PKEY option) \<Rightarrow> relay \<Rightarrow> relayd
     \<Rightarrow> error + (relay \<times> relayd \<times> bytes list)" where
  "ca_launch_ssl_key bio_new pem_read rlay env =
     (if ssl_key_len (rl_conf rlay) \<noteq> 0
      then bind_err (ca_launch_key bio_new pem_read env (rl_ssl_key rlay)
                       (ssl_key_len (rl_conf rlay)) (ssl_keyid (rl_conf rlay)))
             (\<lambda>(k, env', ptr', freed).
                 Inr (rlay\<lparr>rl_ssl_pkey := Some k, rl_ssl_key := ptr'\<rparr>, env', freed))
      else Inr (rlay, env, []))"

definition ca_launch_ssl_cert :: "relay \<Rightarrow> error + (relay \<times> bytes list)" where
  "ca_launch_ssl_cert rlay =
     (if ssl_cert_len (rl_conf rlay) \<noteq> 0
      then bind_err (purge_key (rl_ssl_cert rlay) (ssl_cert_len (rl_conf rlay)))
             (\<lambda>(ptr', freed). Inr (rlay\<lparr>rl_ssl_cert := ptr'\<rparr>, freed))
      else Inr (rlay, []))"

definition ca_launch_ssl_cakey ::
  "(bytes option \<Rightarrow> int \<Rightarrow> 'bio option) \<Rightarrow> ('bio \<Rightarrow> EVP_PKEY option) \<Rightarrow> relay \<Rightarrow> relayd
     \<Rightarrow> error + (relay \<times> relayd \<times> bytes list)" where
  "ca_launch_ssl_cakey bio_new pem_read rlay env =
     (if ssl_cakey_len (rl_conf rlay) \<noteq> 0
      then bind_err (ca_launch_key bio_new pem_read env (rl_ssl_cakey rlay)
                       (ssl_cakey_len (rl_conf rlay)) (ssl_cakeyid (rl_conf rlay)))
             (\<lambda>(k, env', ptr', freed).
                 Inr (rlay\<lparr>rl_ssl_capkey := Some k, rl_ssl_cakey := ptr'\<rparr>, env', freed))
      else Inr (rlay, env, []))"

definition ca_launch_ssl_cacert :: "relay \<Rightarrow> error + (relay \<times> bytes list)" where
  "ca_launch_ssl_cacert rlay =
     (if ssl_cacert_len (rl_conf rlay) \<noteq> 0
      then bind_err (purge_key (rl_ssl_cacert rlay) (ssl_cacert_len (rl_conf rlay)))
             (\<lambda>(ptr', freed). Inr (rlay\<lparr>rl_ssl_cacert := ptr'\<rparr>, freed))
      else Inr (rlay, []))"

text \<open>The body of the loop of \<^verbatim>\<open>ca_launch\<close> for one relay: a relay with neither
  \<^verbatim>\<open>F_SSL\<close> nor \<^verbatim>\<open>F_SSLCLIENT\<close> is passed over.\<close>

definition ca_launch_relay ::
  "(bytes option \<Rightarrow> int \<Rightarrow> 'bio option) \<Rightarrow> ('bio \<Rightarrow> EVP_PKEY option) \<Rightarrow> relay \<Rightarrow> relayd
     \<Rightarrow> error + (relay \<times> relayd \<times> bytes list)" where
  "ca_launch_relay bio_new pem_read rlay env =
     (if rc_flags (rl_conf rlay) \<inter> {F_SSL, F_SSLCLIENT} = {} then Inr (rlay, env, [])
      else
        bind_err (ca_launch_ssl_key bio_new pem_read rlay env) (\<lambda>(r1, env1, f1).
        bind_err (ca_launch_ssl_cert r1) (\<lambda>(r2, f2).
        bind_err (ca_launch_ssl_cakey bio_new pem_read r2 env1) (\<lambda>(r3, env3, f3).
        bind_err (ca_launch_ssl_cacert r3) (\<lambda>(r4, f4).
          Inr (r4, env3, f1 @ f2 @ f3 @ f4))))))"

fun ca_launch_loop ::
  "(bytes option \<Rightarrow> int \<Rightarrow> 'bio option) \<Rightarrow> ('bio \<Rightarrow> EVP_PKEY option) \<Rightarrow> relay list \<Rightarrow> relayd
     \<Rightarrow> error + (relay list \<times> relayd \<times> bytes list)" where
  "ca_launch_loop bio_new pem_read [] env = Inr ([], env, [])"
| "ca_launch_loop bio_new pem_read (rlay # rlays) env =
     (case ca_launch_relay bio_new pem_read rlay env of
        Inl e \<Rightarrow> Inl e
      | Inr (rlay', env', freed) \<Rightarrow>
          (case ca_launch_loop bio_new pem_read rlays env' of
             Inl e \<Rightarrow> Inl e
           | Inr (rlays', env'', freed') \<Rightarrow> Inr (rlay' # rlays', env'', freed @ freed')))"

definition ca_launch ::
  "(bytes option \<Rightarrow> int \<Rightarrow> 'bio option) \<Rightarrow> ('bio \<Rightarrow> EVP_PKEY option) \<Rightarrow> relayd
     \<Rightarrow> error + (relayd \<times> bytes list)" where
  "ca_launch bio_new pem_read env =
     (case ca_launch_loop bio_new pem_read (sc_relays env) env of
        Inl e \<Rightarrow> Inl e
      | Inr (rlays', env', freed) \<Rightarrow> Inr (env'\<lparr>sc_relays := rlays'\<rparr>, freed))"

text \<open>Concrete values: a memory BIO that is the first \<open>len\<close> bytes of the buffer, a PEM
  parser that accepts every non-empty buffer, a TLS relay with a key of three bytes, and
  the same relay with no TLS flag.\<close>

definition bio_mem :: "bytes option \<Rightarrow> int \<Rightarrow> bytes option" where
  "bio_mem ptr len = (case ptr of None \<Rightarrow> None | Some b \<Rightarrow> Some (take (nat len) b))"

definition pem_any :: "bytes \<Rightarrow> EVP_PKEY option" where
  "pem_any b = (if b = [] then None else Some (EVP_PKEY (Some (RSA 1))))"

definition relay_tls :: relay where
  "relay_tls = relay0\<lparr>rl_conf := (rl_conf relay0)\<lparr>rc_flags := {F_SSL}, ssl_key_len := 3, ssl_keyid := 7\<rparr>,
     rl_ssl_key := Some [45, 45, 45]\<rparr>"

definition relay_plain :: relay where
  "relay_plain = relay0\<lparr>rl_conf := (rl_conf relay0)\<lparr>ssl_key_len := 3, ssl_keyid := 7\<rparr>,
     rl_ssl_key := Some [45, 45, 45]\<rparr>"

text \<open>A CA with the two relays, before and after \<^verbatim>\<open>ca_launch\<close>.\<close>

definition env_launch :: relayd where
  "env_launch = env0\<lparr>sc_relays := [relay_tls, relay_plain]\<rparr>"

definition env_launched :: relayd where
  "env_launched = env0\<lparr>sc_relays := [relay_tls\<lparr>rl_ssl_key := None, rl_ssl_pkey := Some (EVP_PKEY (Some (RSA 1)))\<rparr>, relay_plain],
      sc_pkeys := Some [\<lparr>pkey = EVP_PKEY (Some (RSA 1)), pkey_id = 7\<rparr>]\<rparr>"

section \<open>Key-value patterns and relay rules\<close>

text \<open>
  Modelled from the spec: the key types of a rule (\<^verbatim>\<open>enum key_type\<close> of \<^verbatim>\<open>relayd.h\<close>, which
  is not among the sources): none, and \<^verbatim>\<open>COOKIE\<close>, \<^verbatim>\<open>HEADER\<close>, \<^verbatim>\<open>QUERY\<close>, \<^verbatim>\<open>PATH\<close>, \<^verbatim>\<open>URL\<close>,
  \<^verbatim>\<open>METHOD\<close>, \<^verbatim>\<open>STATE\<close>. The array \<^verbatim>\<open>rule_kv[KEY_TYPE_MAX]\<close> is a function of the key
  type, and \<open>key_types\<close> are the indices the loops visit, in their order.
\<close>

datatype key_type =
  KEY_TYPE_NONE | KEY_TYPE_COOKIE | KEY_TYPE_HEADER | KEY_TYPE_QUERY | KEY_TYPE_PATH | KEY_TYPE_URL
  | KEY_TYPE_METHOD | KEY_TYPE_STATE

definition key_types :: "key_type list" where
  "key_types = [KEY_TYPE_NONE, KEY_TYPE_COOKIE, KEY_TYPE_HEADER, KEY_TYPE_QUERY, KEY_TYPE_PATH,
     KEY_TYPE_URL, KEY_TYPE_METHOD, KEY_TYPE_STATE]"

datatype key_option =
  KEY_OPTION_NONE | KEY_OPTION_APPEND | KEY_OPTION_SET | KEY_OPTION_REMOVE | KEY_OPTION_HASH
  | KEY_OPTION_LOG

datatype kv_flag = KV_FLAG_MACRO | KV_FLAG_INVAL | KV_FLAG_GLOBBING

datatype direction = RELAY_DIR_INVALID | RELAY_DIR_ANY | RELAY_DIR_REQUEST | RELAY_DIR_RESPONSE

text \<open>A \<^verbatim>\<open>struct kv\<close> without its links (children, parent, match); a \<^verbatim>\<open>NULL\<close> key or value
  is \<open>None\<close>.\<close>

record kv =
  kv_key :: "string option"
  kv_value :: "string option"
  kv_type :: key_type
  kv_option :: key_option
  kv_flags :: "kv_flag set"

record relay_rule =
  rule_dir :: direction
  rule_kv :: "key_type \<Rightarrow> kv"
  rule_label :: nat
  rule_tag :: nat
  rule_tagged :: nat

record protocol =
  rules :: "relay_rule list"

text \<open>\<^verbatim>\<open>strchr(s, c) != NULL\<close> and \<^verbatim>\<open>strpbrk(s, set) != NULL\<close> on strings.\<close>

definition strchr :: "string \<Rightarrow> char \<Rightarrow> bool" where
  "strchr s c \<longleftrightarrow> c \<in> set s"

definition strpbrk :: "string \<Rightarrow> string \<Rightarrow> bool" where
  "strpbrk s cs \<longleftrightarrow> list_ex (\<lambda>c. c \<in> set cs) s"

text \<open>
  The first loop of \<^verbatim>\<open>rule_add\<close>, over the key types; \<open>nofile\<close> is \<^verbatim>\<open>rulefile == NULL\<close>.
  The result is whether the loop ran to its end (\<open>False\<close> for \<^verbatim>\<open>goto fail\<close>) and the
  \<^verbatim>\<open>rule_kv\<close> it leaves. (\<^verbatim>\<open>strdup\<close> is taken to succeed.)
\<close>

fun rule_add_kvs :: "bool \<Rightarrow> direction \<Rightarrow> key_type list \<Rightarrow> (key_type \<Rightarrow> kv) \<Rightarrow> bool \<times> (key_type \<Rightarrow> kv)" where
  "rule_add_kvs nofile dir [] kvs = (True, kvs)"
| "rule_add_kvs nofile dir (i # is) kvs =
     (let kv = kvs i
      in if kv_type kv \<noteq> i then rule_add_kvs nofile dir is kvs
         else
           (let kv1 = (if kv_option kv = KEY_OPTION_LOG \<and> kv_key kv = None \<and> nofile
                       then kv\<lparr>kv_key := Some ''*''\<rparr> else kv)
            in if kv_type kv1 \<in> {KEY_TYPE_QUERY, KEY_TYPE_PATH, KEY_TYPE_URL}
                  \<and> dir \<noteq> RELAY_DIR_REQUEST
               then (False, kvs(i := kv1))
               else
                 (let kv2 = (if kv_value kv1 \<noteq> None \<and> strchr (the (kv_value kv1)) CHR ''$''
                             then kv1\<lparr>kv_flags := insert KV_FLAG_MACRO (kv_flags kv1)\<rparr> else kv1);
                      kv3 = (if kv_key kv2 \<noteq> None \<and> strpbrk (the (kv_key kv2)) ''*?[''
                             then kv2\<lparr>kv_flags := insert KV_FLAG_GLOBBING (kv_flags kv2)\<rparr> else kv2)
                  in rule_add_kvs nofile dir is (kvs(i := kv3)))))"

text \<open>\<^verbatim>\<open>rule_inherit\<close>: the copy of a rule. The copies of the populated patterns have their
  own key and value strings; the reference counts of labels and tags live in
  \<^verbatim>\<open>name2id.c\<close> and are left out.\<close>

definition rule_inherit :: "relay_rule \<Rightarrow> relay_rule" where
  "rule_inherit rule = rule"

text \<open>The body of the loop over the lines of the rule file: \<open>buf\<close> is what \<^verbatim>\<open>fgets\<close>
  returned; it is cut at the first of \<^verbatim>\<open>"\r\n\t "\<close>.\<close>

definition rule_line :: "string \<Rightarrow> string" where
  "rule_line buf = takeWhile (\<lambda>c. c \<notin> {CHR 0x0D, CHR 0x0A, CHR 0x09, CHR '' ''}) buf"

definition rule_setkey :: "string \<Rightarrow> key_type list \<Rightarrow> (key_type \<Rightarrow> kv) \<Rightarrow> (key_type \<Rightarrow> kv)" where
  "rule_setkey line is kvs =
     (\<lambda>i. if i \<in> set is \<and> kv_type (kvs i) = i then (kvs i)\<lparr>kv_key := Some line\<rparr> else kvs i)"

fun rule_add_lines :: "relay_rule \<Rightarrow> string list \<Rightarrow> relay_rule list" where
  "rule_add_lines rule [] = []"
| "rule_add_lines rule (buf # bufs) =
     (let line = rule_line buf
      in if line = [] \<or> hd line = CHR ''#'' then rule_add_lines rule bufs
         else
           (let r = rule_inherit rule
            in r\<lparr>rule_kv := rule_setkey line key_types (rule_kv r)\<rparr> # rule_add_lines rule bufs))"

text \<open>
  \<^verbatim>\<open>rule_add\<close>. \<open>fopen\<close> gives, for a file that can be opened, the buffers that the
  successive calls of \<^verbatim>\<open>fgets\<close> return. The result is the return value and the protocol.
\<close>

definition rule_add ::
  "(string \<Rightarrow> string list option) \<Rightarrow> protocol \<Rightarrow> relay_rule \<Rightarrow> string option \<Rightarrow> int \<times> protocol" where
  "rule_add fopen proto rule rulefile =
     (case rule_add_kvs (rulefile = None) (rule_dir rule) key_types (rule_kv rule) of
        (False, kvs) \<Rightarrow> (-1, proto)
      | (True, kvs) \<Rightarrow>
          (let rule1 = rule\<lparr>rule_kv := kvs\<rparr>
           in case rulefile of
                None \<Rightarrow> (0, proto\<lparr>rules := rules proto @ [rule1]\<rparr>)
              | Some f \<Rightarrow>
                  (case fopen f of
                     None \<Rightarrow> (-1, proto)
                   | Some bufs \<Rightarrow> (0, proto\<lparr>rules := rules proto @ rule_add_lines rule1 bufs\<rparr>))))"

text \<open>Concrete values: a request rule with a header pattern, and a rule file of three
  lines.\<close>

definition kv_none :: kv where
  "kv_none = \<lparr>kv_key = None, kv_value = None, kv_type = KEY_TYPE_NONE, kv_option = KEY_OPTION_NONE,
     kv_flags = {}\<rparr>"

definition rule_header :: "string option \<Rightarrow> string option \<Rightarrow> relay_rule" where
  "rule_header k v = \<lparr>rule_dir = RELAY_DIR_REQUEST,
     rule_kv = (\<lambda>i. kv_none)(KEY_TYPE_HEADER := kv_none\<lparr>kv_key := k, kv_value := v,
        kv_type := KEY_TYPE_HEADER\<rparr>),
     rule_label = 0, rule_tag = 0, rule_tagged = 0\<rparr>"

definition fopen_hosts :: "string \<Rightarrow> string list option" where
  "fopen_hosts f = (if f = ''/etc/hosts.list''
     then Some [[CHR ''#'', CHR '' '', CHR ''h'', CHR 0x0A], [CHR 0x0A],
                [CHR ''*'', CHR ''.'', CHR ''a'', CHR 0x0A]]
     else None)"

text \<open>What the first loop of \<open>rule_add\<close> makes of one populated pattern.\<close>

definition kv_checked :: "bool \<Rightarrow> kv \<Rightarrow> kv" where
  "kv_checked nofile kv =
     (let kv1 = (if kv_option kv = KEY_OPTION_LOG \<and> kv_key kv = None \<and> nofile
                 then kv\<lparr>kv_key := Some ''*''\<rparr> else kv);
          kv2 = (if kv_value kv1 \<noteq> None \<and> strchr (the (kv_value kv1)) CHR ''$''
                 then kv1\<lparr>kv_flags := insert KV_FLAG_MACRO (kv_flags kv1)\<rparr> else kv1)
      in if kv_key kv2 \<noteq> None \<and> strpbrk (the (kv_key kv2)) ''*?[''
         then kv2\<lparr>kv_flags := insert KV_FLAG_GLOBBING (kv_flags kv2)\<rparr> else kv2)"

text \<open>The flags as the specification has them: \<open>GLOBBING\<close> if one of \<open>*?[\<close> is in the key,
  \<open>MACRO\<close> if \<open>$\<close> is in the value.\<close>

definition flags_spec :: "kv \<Rightarrow> bool" where
  "flags_spec kv \<longleftrightarrow>
     (case kv_key kv of None \<Rightarrow> True
      | Some k \<Rightarrow> if CHR ''*'' \<in> set k \<or> CHR ''?'' \<in> set k \<or> CHR ''['' \<in> set k
                  then KV_FLAG_GLOBBING \<in> kv_flags kv else True)
     \<and> (case kv_value kv of None \<Rightarrow> True
        | Some v \<Rightarrow> if CHR ''$'' \<in> set v then KV_FLAG_MACRO \<in> kv_flags kv else True)"

definition rule_query_response :: relay_rule where
  "rule_query_response = \<lparr>rule_dir = RELAY_DIR_RESPONSE,
     rule_kv = (\<lambda>i. kv_none)(KEY_TYPE_QUERY := kv_none\<lparr>kv_key := Some ''id'', kv_type := KEY_TYPE_QUERY\<rparr>),
     rule_label = 0, rule_tag = 0, rule_tagged = 0\<rparr>"

text \<open>The conditions of the two flags in the specification's words: one of \<open>*?[\<close> in the key,
  \<open>$\<close> in the value. A \<^verbatim>\<open>NULL\<close> key or value has neither.\<close>

definition has_glob :: "string option \<Rightarrow> bool" where
  "has_glob k = (case k of None \<Rightarrow> False
     | Some s \<Rightarrow> CHR ''*'' \<in> set s \<or> CHR ''?'' \<in> set s \<or> CHR ''['' \<in> set s)"

definition has_dollar :: "string option \<Rightarrow> bool" where
  "has_dollar v = (case v of None \<Rightarrow> False | Some s \<Rightarrow> CHR ''$'' \<in> set s)"

text \<open>The lines of a rule file that make a rule: cut at the first blank, neither empty nor
  a comment.\<close>

definition rule_lines :: "string list \<Rightarrow> string list" where
  "rule_lines bufs = filter (\<lambda>line. line \<noteq> [] \<and> hd line \<noteq> CHR ''#'') (map rule_line bufs)"

section \<open>Lookup in a kv-tree\<close>

text \<open>
  \<^verbatim>\<open>strcasecmp\<close> of the C library on strings: the difference of the first lower-cased bytes
  that differ, the end of a string counting as the byte 0.
\<close>

fun strcasecmp :: "string \<Rightarrow> string \<Rightarrow> int" where
  "strcasecmp [] [] = 0"
| "strcasecmp [] (b # bs) = 0 - int (of_char (tolower b))"
| "strcasecmp (a # as) [] = int (of_char (tolower a))"
| "strcasecmp (a # as) (b # bs) =
     (if tolower a = tolower b then strcasecmp as bs
      else int (of_char (tolower a)) - int (of_char (tolower b)))"

text \<open>\<^verbatim>\<open>kv_cmp\<close>; \<^verbatim>\<open>strcasecmp\<close> on a \<^verbatim>\<open>NULL\<close> key is a fault.\<close>

definition kv_cmp :: "kv \<Rightarrow> kv \<Rightarrow> error + int" where
  "kv_cmp a b =
     (case kv_key a of
        None \<Rightarrow> Inl Segv
      | Some x \<Rightarrow> (case kv_key b of None \<Rightarrow> Inl Segv | Some y \<Rightarrow> Inr (strcasecmp x y)))"

text \<open>
  \<^verbatim>\<open>fnmatch(pattern, string, FNM_CASEFOLD)\<close> of the C library, \<open>True\<close> for the result 0: the
  loop over the pattern with \<^verbatim>\<open>?\<close>, \<^verbatim>\<open>*\<close>, the bracket expression, the backslash that
  quotes the next character (\<^verbatim>\<open>FNM_NOESCAPE\<close> is not set), and the literal characters,
  compared as they are or lower-cased. The matcher of a bracket expression is a parameter:
  given the pattern after \<^verbatim>\<open>[\<close> and the character, it finds the expression malformed, or
  not matching, or matching with the pattern that follows it.
\<close>

datatype range_result = RANGE_ERROR | RANGE_NOMATCH | RANGE_MATCH string

definition backslash :: char where
  "backslash = CHR 0x5C"

function fnmatch :: "(string \<Rightarrow> char \<Rightarrow> range_result) \<Rightarrow> string \<Rightarrow> string \<Rightarrow> bool"
  and fnmatch_star :: "(string \<Rightarrow> char \<Rightarrow> range_result) \<Rightarrow> string \<Rightarrow> string \<Rightarrow> bool" where
  "fnmatch rangematch [] s = (s = [])"
| "fnmatch rangematch (c # p) s =
     (if c = CHR ''?'' then
        (case s of [] \<Rightarrow> False | t # s' \<Rightarrow> fnmatch rangematch p s')
      else if c = CHR ''*'' then
        (let p' = dropWhile (\<lambda>x. x = CHR ''*'') p
         in if p' = [] then True else fnmatch_star rangematch p' s)
      else if c = CHR ''['' then
        (case s of
           [] \<Rightarrow> False
         | t # s' \<Rightarrow>
             (case rangematch p t of
                RANGE_ERROR \<Rightarrow>
                  (if c = t \<or> tolower c = tolower t then fnmatch rangematch p s' else False)
              | RANGE_MATCH newp \<Rightarrow> fnmatch rangematch newp s'
              | RANGE_NOMATCH \<Rightarrow> False))
      else if c = backslash then
        (case p of
           [] \<Rightarrow>
             (case s of
                [] \<Rightarrow> False
              | t # s' \<Rightarrow> if c = t \<or> tolower c = tolower t then fnmatch rangematch [] s' else False)
         | c' # p' \<Rightarrow>
             (case s of
                [] \<Rightarrow> False
              | t # s' \<Rightarrow> if c' = t \<or> tolower c' = tolower t then fnmatch rangematch p' s' else False))
      else
        (case s of
           [] \<Rightarrow> False
         | t # s' \<Rightarrow> if c = t \<or> tolower c = tolower t then fnmatch rangematch p s' else False))"
| "fnmatch_star rangematch p [] = False"
| "fnmatch_star rangematch p (t # s) =
     (if fnmatch rangematch p (t # s) then True else fnmatch_star rangematch p s)"
  by pat_completeness auto
termination
  by (relation "measures [\<lambda>x. case x of Inl (r, p, s) \<Rightarrow> length s | Inr (r, p, s) \<Rightarrow> length s,
                          \<lambda>x. case x of Inl (r, p, s) \<Rightarrow> length p | Inr (r, p, s) \<Rightarrow> length p,
                          \<lambda>x. case x of Inl a \<Rightarrow> 0 | Inr b \<Rightarrow> 1]")
     (auto simp: le_imp_less_Suc length_dropWhile_le)

text \<open>
  The tree of \<^verbatim>\<open>RB_GENERATE(kvtree, kv, kv_node, kv_cmp)\<close> as a binary search tree:
  \<^verbatim>\<open>RB_FIND\<close> descends by the sign of the comparison, \<^verbatim>\<open>RB_FOREACH\<close> visits the records
  in order.
\<close>

fun RB_FIND :: "kv tree \<Rightarrow> kv \<Rightarrow> error + kv option" where
  "RB_FIND Leaf elm = Inr None"
| "RB_FIND (Node l tmp r) elm =
     (case kv_cmp elm tmp of
        Inl e \<Rightarrow> Inl e
      | Inr cmp \<Rightarrow>
          if cmp < 0 then RB_FIND l elm
          else if cmp > 0 then RB_FIND r elm
          else Inr (Some tmp))"

text \<open>The loop of \<^verbatim>\<open>kv_find\<close> under \<^verbatim>\<open>KV_FLAG_GLOBBING\<close>, over the records in order.\<close>

fun kv_find_glob :: "(string \<Rightarrow> char \<Rightarrow> range_result) \<Rightarrow> string \<Rightarrow> kv list \<Rightarrow> error + kv option" where
  "kv_find_glob rangematch key [] = Inr None"
| "kv_find_glob rangematch key (match # ms) =
     (case kv_key match of
        None \<Rightarrow> Inl Segv
      | Some k \<Rightarrow> if fnmatch rangematch key k then Inr (Some match)
                  else kv_find_glob rangematch key ms)"

definition kv_find :: "(string \<Rightarrow> char \<Rightarrow> range_result) \<Rightarrow> kv tree \<Rightarrow> kv \<Rightarrow> error + kv option" where
  "kv_find rangematch keys kv =
     (if KV_FLAG_GLOBBING \<in> kv_flags kv
      then kv_find_glob rangematch (case kv_key kv of None \<Rightarrow> [] | Some k \<Rightarrow> k) (inorder keys)
      else RB_FIND keys kv)"

text \<open>
  A well-formed kv-tree: every record has a key, a C string (no byte 0 in it), and the
  records are in strictly ascending order of \<^verbatim>\<open>kv_cmp\<close>, as \<^verbatim>\<open>RB_INSERT\<close> keeps them.
\<close>

definition cstring :: "string \<Rightarrow> bool" where
  "cstring s \<longleftrightarrow> CHR 0x00 \<notin> set s"

definition kv_less :: "kv \<Rightarrow> kv \<Rightarrow> bool" where
  "kv_less a b \<longleftrightarrow> (case kv_cmp a b of Inl e \<Rightarrow> False | Inr c \<Rightarrow> c < 0)"

definition kvtree_ok :: "kv tree \<Rightarrow> bool" where
  "kvtree_ok keys \<longleftrightarrow>
     list_all (\<lambda>m. case kv_key m of None \<Rightarrow> False | Some k \<Rightarrow> cstring k) (inorder keys)
     \<and> sorted_wrt kv_less (inorder keys)"

text \<open>The characters that are special in a pattern of \<^verbatim>\<open>fnmatch\<close>.\<close>

definition literal_key :: "string \<Rightarrow> bool" where
  "literal_key key \<longleftrightarrow>
     list_all (\<lambda>c. c \<noteq> CHR ''*'' \<and> c \<noteq> CHR ''?'' \<and> c \<noteq> CHR ''['' \<and> c \<noteq> backslash) key"

text \<open>Concrete values: a bracket matcher that finds every expression malformed, a header
  record, a tree of three headers.\<close>

definition rangematch_error :: "string \<Rightarrow> char \<Rightarrow> range_result" where
  "rangematch_error p t = RANGE_ERROR"

definition header :: "string \<Rightarrow> string \<Rightarrow> kv" where
  "header k v = \<lparr>kv_key = Some k, kv_value = Some v, kv_type = KEY_TYPE_HEADER,
     kv_option = KEY_OPTION_NONE, kv_flags = {}\<rparr>"

definition headers :: "kv tree" where
  "headers = Node (Node Leaf (header ''Accept'' ''*/*'') Leaf) (header ''Host'' ''example.com'')
     (Node Leaf (header ''User-Agent'' ''curl'') Leaf)"

section \<open>Theorems\<close>

subsection \<open>A reload in progress\<close>

lemma sc_reload_config_purge [simp]: "sc_reload (config_purge env what) = sc_reload env"
  by (simp add: config_purge_def)

text \<open>
  C3. While a reload is pending (\<open>sc_reload > 0\<close>), \<open>parent_reload\<close> returns after one log
  line: the environment, the counter and every other part of the parent's state are as
  before, and nothing but the log line is emitted.
\<close>

theorem parent_reload_pending_rejected:
  "0 < sc_reload (ps_env ps) \<Longrightarrow>
     parent_reload load_config me pf reset filename ps
       = ps\<lparr>ps_out := ps_out ps @ [Log_debug ''parent_reload: already in progress: %d pending'']\<rparr>"
  by (simp add: parent_reload_def emit_def)

theorem parent_reload_pending_rejected_witness:
  "0 < sc_reload (ps_env (ps0\<lparr>ps_env := env0\<lparr>sc_reload := 3\<rparr>\<rparr>))
   \<and> parent_reload (\<lambda>f e. (0, e)) PROC_PARENT (-1) CONFIG_RELOAD None (ps0\<lparr>ps_env := env0\<lparr>sc_reload := 3\<rparr>\<rparr>)
       = (ps0\<lparr>ps_env := env0\<lparr>sc_reload := 3\<rparr>\<rparr>)\<lparr>ps_out :=
           [Log_debug ''parent_reload: already in progress: %d pending'']\<rparr>"
  using parent_reload_pending_rejected
    [of "ps0\<lparr>ps_env := env0\<lparr>sc_reload := 3\<rparr>\<rparr>" "\<lambda>f e. (0, e)" PROC_PARENT "-1" CONFIG_RELOAD None]
  by (simp add: ps0_def env0_def)

subsection \<open>The reload counter\<close>

lemma emit_emit: "emit b (emit a ps) = emit (a @ b) ps"
  by (simp add: emit_def)

lemma emit_Nil: "emit [] ps = ps"
  by (simp add: emit_def)

lemma ps_env_emit: "ps_env (emit a ps) = ps_env ps"
  by (simp add: emit_def)

lemma ps_out_emit: "ps_out (emit a ps) = ps_out ps @ a"
  by (simp add: emit_def)

lemma parent_configure_sc_reload:
  "sc_reload (ps_env (snd (parent_configure me pf ps))) = 2 + 2 * int (sc_prefork_relay (ps_env ps))"
  by (simp add: parent_configure_def Let_def split: prod.splits)

lemma parent_configure_done_zero:
  "sc_reload (ps_env ps) = 0 \<Longrightarrow>
     parent_configure_done me ps = emit [Log_warnx ''parent_configure_done: configuration already finished''] ps"
  by (simp add: parent_configure_done_def)

lemma parent_configure_done_pos:
  "sc_reload (ps_env ps) \<noteq> 0 \<Longrightarrow>
     parent_configure_done me ps =
       emit (if sc_reload (ps_env ps) = 1 then ctl_start_all me else [])
         (ps\<lparr>ps_env := (ps_env ps)\<lparr>sc_reload := sc_reload (ps_env ps) - 1\<rparr>\<rparr>)"
  by (simp add: parent_configure_done_def emit_def Let_def)

lemma configure_done_n_zero:
  "sc_reload (ps_env ps) = 0 \<Longrightarrow>
     configure_done_n me k ps =
       emit (replicate k (Log_warnx ''parent_configure_done: configuration already finished'')) ps"
proof (induction k arbitrary: ps)
  case 0
  then show ?case by (simp add: emit_Nil)
next
  case (Suc k)
  have "configure_done_n me (Suc k) ps
      = configure_done_n me k (emit [Log_warnx ''parent_configure_done: configuration already finished''] ps)"
    using Suc.prems by (simp add: parent_configure_done_zero)
  also have "\<dots> = emit (replicate k (Log_warnx ''parent_configure_done: configuration already finished''))
      (emit [Log_warnx ''parent_configure_done: configuration already finished''] ps)"
    using Suc.prems by (intro Suc.IH) (simp add: ps_env_emit)
  finally show ?case by (simp add: emit_emit replicate_append_same)
qed

lemma configure_done_n_count:
  "sc_reload (ps_env ps) = int n \<Longrightarrow> 0 < n \<Longrightarrow>
     configure_done_n me k ps =
       (if k < n then ps\<lparr>ps_env := (ps_env ps)\<lparr>sc_reload := int n - int k\<rparr>\<rparr>
        else emit (ctl_start_all me
               @ replicate (k - n) (Log_warnx ''parent_configure_done: configuration already finished''))
             (ps\<lparr>ps_env := (ps_env ps)\<lparr>sc_reload := 0\<rparr>\<rparr>))"
proof (induction k arbitrary: ps n)
  case 0
  then show ?case by simp
next
  case (Suc k)
  show ?case
  proof (cases "n = 1")
    case True
    let ?ps1 = "emit (ctl_start_all me) (ps\<lparr>ps_env := (ps_env ps)\<lparr>sc_reload := 0\<rparr>\<rparr>)"
    have step: "parent_configure_done me ps = ?ps1"
      using Suc.prems True by (simp add: parent_configure_done_pos)
    have "sc_reload (ps_env ?ps1) = 0" by (simp add: ps_env_emit)
    then show ?thesis using True step by (simp add: configure_done_n_zero emit_emit)
  next
    case False
    then obtain m where m: "n = Suc m" "0 < m" using Suc.prems by (cases n) auto
    let ?ps1 = "ps\<lparr>ps_env := (ps_env ps)\<lparr>sc_reload := int m\<rparr>\<rparr>"
    have step: "parent_configure_done me ps = ?ps1"
      using Suc.prems m by (simp add: parent_configure_done_pos emit_Nil)
    have "sc_reload (ps_env ?ps1) = int m" by simp
    from Suc.IH[OF this m(2)] step m show ?thesis by (simp add: emit_def)
  qed
qed

lemma ctl_start_all_parent:
  "ctl_start_all PROC_PARENT =
     [Compose_imsg PROC_HCE (-1) IMSG_CTL_START (-1), Compose_imsg PROC_RELAY (-1) IMSG_CTL_START (-1),
      Compose_imsg PROC_PFE (-1) IMSG_CTL_START (-1), Compose_imsg PROC_CA (-1) IMSG_CTL_START (-1)]"
  by (simp add: ctl_start_all_def proc_ids_def)

text \<open>
  C4. \<open>parent_configure\<close> sets the reload counter to \<open>2 + 2 * N\<close> for \<open>N\<close> prefork relay
  instances. Each acknowledgement decrements it by one; the acknowledgement that brings it
  to zero, and no other, queues \<open>IMSG_CTL_START\<close> for every process but the parent itself
  (all instances); an acknowledgement at zero only logs a warning. So of \<open>k\<close>
  acknowledgements after a configuration the first \<open>2 + 2 * N - 1\<close> change the counter
  alone, the next one broadcasts the start, and any further ones only warn.
\<close>

theorem reload_counter_protocol:
  "sc_reload (ps_env (snd (parent_configure me pf ps))) = 2 + 2 * int (sc_prefork_relay (ps_env ps))
   \<and> (\<forall>k. configure_done_n me k (snd (parent_configure me pf ps)) =
        (if k < 2 + 2 * sc_prefork_relay (ps_env ps)
         then (snd (parent_configure me pf ps))\<lparr>ps_env := (ps_env (snd (parent_configure me pf ps)))
                \<lparr>sc_reload := 2 + 2 * int (sc_prefork_relay (ps_env ps)) - int k\<rparr>\<rparr>
         else emit (ctl_start_all me
                @ replicate (k - (2 + 2 * sc_prefork_relay (ps_env ps)))
                    (Log_warnx ''parent_configure_done: configuration already finished''))
              ((snd (parent_configure me pf ps))\<lparr>ps_env := (ps_env (snd (parent_configure me pf ps)))
                \<lparr>sc_reload := 0\<rparr>\<rparr>)))
   \<and> (\<forall>q. sc_reload (ps_env q) \<noteq> 0 \<longrightarrow>
        parent_configure_done me q =
          emit (if sc_reload (ps_env q) = 1 then ctl_start_all me else [])
            (q\<lparr>ps_env := (ps_env q)\<lparr>sc_reload := sc_reload (ps_env q) - 1\<rparr>\<rparr>))
   \<and> (\<forall>q. sc_reload (ps_env q) = 0 \<longrightarrow>
        parent_configure_done me q =
          q\<lparr>ps_out := ps_out q @ [Log_warnx ''parent_configure_done: configuration already finished'']\<rparr>)
   \<and> ctl_start_all PROC_PARENT =
        [Compose_imsg PROC_HCE (-1) IMSG_CTL_START (-1), Compose_imsg PROC_RELAY (-1) IMSG_CTL_START (-1),
         Compose_imsg PROC_PFE (-1) IMSG_CTL_START (-1), Compose_imsg PROC_CA (-1) IMSG_CTL_START (-1)]"
proof -
  let ?p = "snd (parent_configure me pf ps)"
  let ?n = "2 + 2 * sc_prefork_relay (ps_env ps)"
  have c: "sc_reload (ps_env ?p) = int ?n"
    by (simp add: parent_configure_sc_reload)
  have "0 < ?n" by simp
  from configure_done_n_count[OF c this, of me]
  have run: "\<And>k. configure_done_n me k ?p =
        (if k < ?n then ?p\<lparr>ps_env := (ps_env ?p)\<lparr>sc_reload := int ?n - int k\<rparr>\<rparr>
         else emit (ctl_start_all me
                @ replicate (k - ?n) (Log_warnx ''parent_configure_done: configuration already finished''))
              (?p\<lparr>ps_env := (ps_env ?p)\<lparr>sc_reload := 0\<rparr>\<rparr>))" .
  have run': "\<forall>k. configure_done_n me k ?p =
        (if k < ?n then ?p\<lparr>ps_env := (ps_env ?p)\<lparr>sc_reload := 2 + 2 * int (sc_prefork_relay (ps_env ps)) - int k\<rparr>\<rparr>
         else emit (ctl_start_all me
                @ replicate (k - ?n) (Log_warnx ''parent_configure_done: configuration already finished''))
              (?p\<lparr>ps_env := (ps_env ?p)\<lparr>sc_reload := 0\<rparr>\<rparr>))"
    using run by simp
  show ?thesis
    using c run' parent_configure_done_pos[of _ me] parent_configure_done_zero[of _ me]
      ctl_start_all_parent
    by (simp add: emit_def)
qed

theorem reload_counter_protocol_witness:
  "sc_reload (ps_env (snd (parent_configure PROC_PARENT (-1) ps0))) = 8
   \<and> sc_reload (ps_env (configure_done_n PROC_PARENT 7 (snd (parent_configure PROC_PARENT (-1) ps0)))) = 1
   \<and> ps_out (configure_done_n PROC_PARENT 7 (snd (parent_configure PROC_PARENT (-1) ps0)))
       = ps_out (snd (parent_configure PROC_PARENT (-1) ps0))
   \<and> ps_out (configure_done_n PROC_PARENT 8 (snd (parent_configure PROC_PARENT (-1) ps0)))
       = ps_out (snd (parent_configure PROC_PARENT (-1) ps0)) @ ctl_start_all PROC_PARENT
   \<and> sc_reload (ps_env (ps0\<lparr>ps_env := env0\<lparr>sc_reload := 1\<rparr>\<rparr>)) \<noteq> 0
   \<and> ps_out (parent_configure_done PROC_PARENT (ps0\<lparr>ps_env := env0\<lparr>sc_reload := 1\<rparr>\<rparr>)) = ctl_start_all PROC_PARENT
   \<and> sc_reload (ps_env ps0) = 0
   \<and> parent_configure_done PROC_PARENT ps0 =
        ps0\<lparr>ps_out := [Log_warnx ''parent_configure_done: configuration already finished'']\<rparr>"
proof -
  note r = reload_counter_protocol[of PROC_PARENT "-1" ps0]
  have n: "sc_prefork_relay (ps_env ps0) = 3" "sc_reload (ps_env ps0) = 0" "ps_out ps0 = []"
    by (simp_all add: ps0_def env0_def)
  from r have a: "sc_reload (ps_env (snd (parent_configure PROC_PARENT (-1) ps0))) = 8"
    by (simp add: n)
  from r have k: "\<And>k. configure_done_n PROC_PARENT k (snd (parent_configure PROC_PARENT (-1) ps0)) =
        (if k < 8
         then (snd (parent_configure PROC_PARENT (-1) ps0))\<lparr>ps_env := (ps_env (snd (parent_configure PROC_PARENT (-1) ps0)))
                \<lparr>sc_reload := 8 - int k\<rparr>\<rparr>
         else emit (ctl_start_all PROC_PARENT
                @ replicate (k - 8)
                    (Log_warnx ''parent_configure_done: configuration already finished''))
              ((snd (parent_configure PROC_PARENT (-1) ps0))\<lparr>ps_env := (ps_env (snd (parent_configure PROC_PARENT (-1) ps0)))
                \<lparr>sc_reload := 0\<rparr>\<rparr>))"
    by (simp add: n)
  from r have p: "\<And>q. sc_reload (ps_env q) \<noteq> 0 \<Longrightarrow>
        parent_configure_done PROC_PARENT q =
          emit (if sc_reload (ps_env q) = 1 then ctl_start_all PROC_PARENT else [])
            (q\<lparr>ps_env := (ps_env q)\<lparr>sc_reload := sc_reload (ps_env q) - 1\<rparr>\<rparr>)"
    by blast
  from r have z: "\<And>q. sc_reload (ps_env q) = 0 \<Longrightarrow>
        parent_configure_done PROC_PARENT q =
          q\<lparr>ps_out := ps_out q @ [Log_warnx ''parent_configure_done: configuration already finished'']\<rparr>"
    by blast
  have one: "sc_reload (ps_env (ps0\<lparr>ps_env := env0\<lparr>sc_reload := 1\<rparr>\<rparr>)) \<noteq> 0" by simp
  show ?thesis
    using a k[of 7] k[of 8] p[OF one] z[OF n(2)] one n
    by (simp add: emit_def)
qed

subsection \<open>A reload whose parse fails\<close>

lemma parent_configure_env:
  "ps_env (snd (parent_configure me pf ps)) =
     (ps_env ps)\<lparr>sc_tables := [], sc_rdrs := [], sc_relays := map ssl_inspect (sc_relays (ps_env ps)),
        sc_protos := [], sc_reload := 2 + 2 * int (sc_prefork_relay (ps_env ps))\<rparr>"
  by (simp add: parent_configure_def Let_def config_purge_def CONFIG_ALL_def split: prod.splits)

lemma parent_configure_out:
  "\<exists>acts. ps_out (snd (parent_configure me pf ps)) = ps_out ps @ acts"
  by (simp add: parent_configure_def Let_def split: prod.splits)

lemma parent_reload_failed_load:
  assumes "sc_reload (ps_env ps) = 0"
    and "load_config (reload_filename (ps_env ps) filename) (config_purge (ps_env ps) CONFIG_ALL) = (-1, env')"
  shows "parent_reload load_config me pf CONFIG_RELOAD filename ps =
     (let (r, ps') = parent_configure me pf
            (ps\<lparr>ps_env := env', ps_out := ps_out ps @
                [Log_debug ''parent_reload: level %d config file %s'',
                 Log_debug ''parent_reload: failed to load config file %s'',
                 Config_setreset CONFIG_ALL]\<rparr>)
      in emit (if r = -1 then [Log_debug ''parent_reload: failed to commit config from %s''] else []) ps')"
  using assms by (simp add: parent_reload_def emit_def Let_def split: prod.splits)

text \<open>
  C2 (as amended). When no reload is pending and the parser fails on a reload, the failure
  is logged, but the previous configuration is not kept: the parent has purged its
  in-memory configuration before parsing, and it goes on with what the parser left of the
  purged environment: it sends the reset of every category and runs \<open>parent_configure\<close>,
  so that afterwards the tables, redirects and protocols are empty, the relays are those
  the parser left, and the reload counter is \<open>2 + 2 * N\<close>.
\<close>

theorem parent_reload_parse_failure:
  assumes "sc_reload (ps_env ps) = 0"
    and "load_config (reload_filename (ps_env ps) filename) (config_purge (ps_env ps) CONFIG_ALL) = (-1, env')"
  shows "ps_env (parent_reload load_config me pf CONFIG_RELOAD filename ps) =
           env'\<lparr>sc_tables := [], sc_rdrs := [], sc_relays := map ssl_inspect (sc_relays env'),
                sc_protos := [], sc_reload := 2 + 2 * int (sc_prefork_relay env')\<rparr>
         \<and> sc_tables (config_purge (ps_env ps) CONFIG_ALL) = []
         \<and> sc_rdrs (config_purge (ps_env ps) CONFIG_ALL) = []
         \<and> sc_relays (config_purge (ps_env ps) CONFIG_ALL) = []
         \<and> sc_protos (config_purge (ps_env ps) CONFIG_ALL) = []
         \<and> (\<exists>acts. ps_out (parent_reload load_config me pf CONFIG_RELOAD filename ps) =
               ps_out ps @ [Log_debug ''parent_reload: level %d config file %s'',
                 Log_debug ''parent_reload: failed to load config file %s'',
                 Config_setreset CONFIG_ALL] @ acts)"
proof -
  let ?q = "ps\<lparr>ps_env := env', ps_out := ps_out ps @
                [Log_debug ''parent_reload: level %d config file %s'',
                 Log_debug ''parent_reload: failed to load config file %s'',
                 Config_setreset CONFIG_ALL]\<rparr>"
  obtain r ps' where c: "parent_configure me pf ?q = (r, ps')"
    by (cases "parent_configure me pf ?q")
  have eq: "parent_reload load_config me pf CONFIG_RELOAD filename ps =
      emit (if r = -1 then [Log_debug ''parent_reload: failed to commit config from %s''] else []) ps'"
    using parent_reload_failed_load[where load_config = load_config and ps = ps
        and filename = filename and env' = env' and me = me and pf = pf, OF assms] c by simp
  have e: "ps_env ps' = env'\<lparr>sc_tables := [], sc_rdrs := [], sc_relays := map ssl_inspect (sc_relays env'),
                sc_protos := [], sc_reload := 2 + 2 * int (sc_prefork_relay env')\<rparr>"
    using parent_configure_env[of me pf ?q] c by simp
  obtain acts where o: "ps_out ps' = ps_out ?q @ acts"
    using parent_configure_out[of me pf ?q] c by auto
  have p: "sc_tables (config_purge (ps_env ps) CONFIG_ALL) = []"
     "sc_rdrs (config_purge (ps_env ps) CONFIG_ALL) = []"
     "sc_relays (config_purge (ps_env ps) CONFIG_ALL) = []"
     "sc_protos (config_purge (ps_env ps) CONFIG_ALL) = []"
    by (simp_all add: config_purge_def CONFIG_ALL_def)
  show ?thesis
    using eq e o p by (simp add: ps_env_emit ps_out_emit)
qed

theorem parent_reload_parse_failure_witness:
  "sc_reload (ps_env ps_live) = 0
   \<and> load_config_fails (reload_filename (ps_env ps_live) None) (config_purge (ps_env ps_live) CONFIG_ALL)
       = (-1, env0)
   \<and> ps_env (parent_reload load_config_fails PROC_PARENT (-1) CONFIG_RELOAD None ps_live)
       = env0\<lparr>sc_reload := 8\<rparr>
   \<and> (\<exists>acts. ps_out (parent_reload load_config_fails PROC_PARENT (-1) CONFIG_RELOAD None ps_live) =
         [Log_debug ''parent_reload: level %d config file %s'',
          Log_debug ''parent_reload: failed to load config file %s'',
          Config_setreset CONFIG_ALL] @ acts)"
proof -
  have a: "sc_reload (ps_env ps_live) = 0"
    by (simp add: ps_live_def ps0_def env0_def)
  have b: "load_config_fails (reload_filename (ps_env ps_live) None) (config_purge (ps_env ps_live) CONFIG_ALL)
       = (-1, env0)"
    by (simp add: load_config_fails_def ps_live_def ps0_def env0_def config_purge_def CONFIG_ALL_def)
  have o: "ps_out ps_live = []" by (simp add: ps_live_def ps0_def)
  show ?thesis
    using a b o parent_reload_parse_failure[where load_config = load_config_fails and ps = ps_live
        and filename = None and env' = env0 and me = PROC_PARENT and pf = "-1", OF a b]
    by (simp add: env0_def)
qed

text \<open>
  C2, the claim as stated, fails: the parent \<open>ps_live\<close> holds one relay and has no reload
  pending; the parser fails and changes nothing. After \<open>parent_reload\<close> the relay is gone
  from the parent's configuration and a new fan-out is under way.
\<close>

theorem parent_reload_keeps_config_counterexample:
  "sc_reload (ps_env ps_live) = 0
   \<and> load_config_fails (reload_filename (ps_env ps_live) None) (config_purge (ps_env ps_live) CONFIG_ALL)
       = (-1, config_purge (ps_env ps_live) CONFIG_ALL)
   \<and> sc_relays (ps_env ps_live) = [relay0]
   \<and> sc_relays (ps_env (parent_reload load_config_fails PROC_PARENT (-1) CONFIG_RELOAD None ps_live)) = []
   \<and> sc_reload (ps_env (parent_reload load_config_fails PROC_PARENT (-1) CONFIG_RELOAD None ps_live)) = 8
   \<and> ps_env (parent_reload load_config_fails PROC_PARENT (-1) CONFIG_RELOAD None ps_live) \<noteq> ps_env ps_live"
proof -
  have e: "ps_env (parent_reload load_config_fails PROC_PARENT (-1) CONFIG_RELOAD None ps_live)
       = env0\<lparr>sc_reload := 8\<rparr>"
    by (simp add: parent_reload_def parent_configure_def emit_def Let_def load_config_fails_def
        ps_live_def ps0_def env0_def config_purge_def CONFIG_ALL_def CONFIG_RELOAD_def
        reload_filename_def proc_ids_def)
  have l: "ps_env ps_live = env0\<lparr>sc_relays := [relay0]\<rparr>"
    by (simp add: ps_live_def ps0_def)
  show ?thesis unfolding e l
    by (simp add: env0_def load_config_fails_def)
qed

subsection \<open>The death of a child\<close>

lemma reaped_Nil [simp]: "reaped [] = []"
  by (simp add: reaped_def)

lemma reaped_Cons [simp]:
  "reaped ((pid, status, e) # ws) =
     (if 0 < pid \<or> (pid = -1 \<and> e = EINTR) then (pid, status, e) # reaped ws else [])"
  by (simp add: reaped_def)

lemma lost_child_lines_Nil [simp]: "lost_child_lines pids [] = []"
  by (simp add: lost_child_lines_def)

lemma lost_child_lines_Cons [simp]:
  "lost_child_lines pids ((pid, status, e) # ws) =
     (if 0 < pid \<and> child_failed status \<and> pid \<in> set (map pids proc_ids)
      then [Log_warnx ''lost child: %s %s''] else []) @ lost_child_lines pids ws"
  by (auto simp: lost_child_lines_def list_ex_iff)

lemma unexpected_cause_Nil [simp]: "\<not> unexpected_cause []"
  by (simp add: unexpected_cause_def)

lemma unexpected_cause_Cons [simp]:
  "unexpected_cause ((pid, status, e) # ws) \<longleftrightarrow>
     (0 < pid \<or> (pid = -1 \<and> e = EINTR)) \<and> ((0 < pid \<and> status = Neither) \<or> unexpected_cause ws)"
  by (auto simp: unexpected_cause_def)

lemma reap_children_reaped_all:
  "reap_children pids ws True =
     (if unexpected_cause ws then Inl (Fatalx ''unexpected cause of SIGCHLD'')
      else Inr (True, lost_child_lines pids (reaped ws)))"
proof (induction ws)
  case Nil
  show ?case by simp
next
  case (Cons w ws)
  obtain pid status e where w: "w = (pid, status, e)" by (cases w)
  show ?case
  proof (cases "pid \<le> 0")
    case True
    with Cons w show ?thesis by simp
  next
    case False
    with Cons w show ?thesis
      by (cases status) (simp_all add: child_failed_def)
  qed
qed

text \<open>
  C5 (as amended). When \<open>waitpid\<close> reports a child that was killed by a signal or has
  exited (a CA worker that died, say), the handler of \<open>SIGCHLD\<close> reaps it and every other
  child that \<open>waitpid\<close> reports, logs one line "lost child" for each of them that was killed
  by a signal or exited with a status other than 0, and then shuts everything down
  (\<open>parent_shutdown\<close>: the configuration purged, \<open>proc_kill\<close> of all children, cleanup,
  exit 0). It starts no process, and the parent is never left running. The one other
  outcome is \<open>fatalx\<close>, exactly when \<open>waitpid\<close> reports a later child whose status is
  neither a signal nor an exit.
\<close>

theorem parent_sig_handler_child_death:
  assumes "0 < pid" "status \<noteq> Neither"
  shows "parent_sig_handler load_config me pf SIGCHLD ((pid, status, e) # ws) ps =
     (if unexpected_cause ws then Died (Fatalx ''unexpected cause of SIGCHLD'')
      else Exited 0 (ps\<lparr>ps_env := config_purge (ps_env ps) CONFIG_ALL,
             ps_out := ps_out ps @ lost_child_lines (ps_pid ps) ((pid, status, e) # reaped ws)
               @ [Proc_kill, Control_cleanup, Log_info ''parent terminating, pid %d'']\<rparr>))"
proof -
  have r: "reap_children (ps_pid ps) ((pid, status, e) # ws) False =
     (if unexpected_cause ws then Inl (Fatalx ''unexpected cause of SIGCHLD'')
      else Inr (True, lost_child_lines (ps_pid ps) ((pid, status, e) # reaped ws)))"
    using assms
    by (cases status) (simp_all add: reap_children_reaped_all child_failed_def)
  show ?thesis
    unfolding parent_sig_handler_def
    by (simp add: r parent_shutdown_def emit_def del: reap_children.simps)
qed

theorem parent_sig_handler_child_death_witness:
  "(0::int) < 104 \<and> Signaled 9 \<noteq> Neither
   \<and> \<not> unexpected_cause [(102, Exited_with 1, ECHILD), (103, Exited_with 0, ECHILD), (0, Neither, ECHILD)]
   \<and> parent_sig_handler load_config_fails PROC_PARENT (-1) SIGCHLD
        [(104, Signaled 9, ECHILD), (102, Exited_with 1, ECHILD), (103, Exited_with 0, ECHILD),
         (0, Neither, ECHILD)] ps_live
       = Exited 0 (ps_live\<lparr>ps_env := config_purge (ps_env ps_live) CONFIG_ALL,
            ps_out := [Log_warnx ''lost child: %s %s'', Log_warnx ''lost child: %s %s'',
                       Proc_kill, Control_cleanup, Log_info ''parent terminating, pid %d'']\<rparr>)"
proof -
  let ?ws = "[(102, Exited_with 1, ECHILD), (103, Exited_with 0, ECHILD), (0, Neither, ECHILD)]"
  have h: "(0::int) < 104" "Signaled 9 \<noteq> Neither" by simp_all
  have u: "\<not> unexpected_cause ?ws"
    by simp
  have l: "lost_child_lines (ps_pid ps_live) ((104, Signaled 9, ECHILD) # reaped ?ws)
      = [Log_warnx ''lost child: %s %s'', Log_warnx ''lost child: %s %s'']"
    by (simp add: child_failed_def ps_live_def ps0_def proc_ids_def)
  have o: "ps_out ps_live = []" by (simp add: ps_live_def ps0_def)
  from parent_sig_handler_child_death[OF h, of load_config_fails PROC_PARENT "-1" ECHILD ?ws ps_live]
  show ?thesis
    using h u l o by simp
qed

text \<open>
  C5, the claim as stated, fails: the CA worker (pid 104) is killed by signal 9 while the
  relays run. The parent reaps it, and then purges its configuration, kills every child
  and exits: a full shutdown, and no respawn.
\<close>

theorem ca_death_respawn_counterexample:
  "ps_pid ps_live PROC_CA = 104
   \<and> parent_sig_handler load_config_fails PROC_PARENT (-1) SIGCHLD [(104, Signaled 9, ECHILD)] ps_live
       = Exited 0 (ps_live\<lparr>ps_env := (ps_env ps_live)\<lparr>sc_relays := []\<rparr>,
            ps_out := [Log_warnx ''lost child: %s %s'', Proc_kill, Control_cleanup,
                       Log_info ''parent terminating, pid %d'']\<rparr>)"
  by (simp add: parent_sig_handler_def parent_shutdown_def emit_def ps_live_def ps0_def env0_def
      proc_ids_def config_purge_def CONFIG_ALL_def)

subsection \<open>Tables\<close>

lemma table_findbyconf_loop_find:
  "table_findbyconf_loop (table_conf_copy (conf tb)) (sendbuf tb) ts = List.find (same_table_spec tb) ts"
proof (induction ts)
  case Nil
  show ?case by simp
next
  case (Cons t ts)
  have "(table_conf_copy (conf tb) = table_conf_copy (conf t)
          \<and> ((sendbuf tb = None \<and> sendbuf t = None)
              \<or> (sendbuf tb \<noteq> None \<and> sendbuf t \<noteq> None \<and> the (sendbuf tb) = the (sendbuf t))))
        = same_table_spec tb t"
    by (cases "sendbuf tb"; cases "sendbuf t") (simp_all add: same_table_spec_def table_conf_copy_def)
  with Cons show ?case by (simp add: Let_def)
qed

text \<open>
  C7. \<open>table_findbyconf\<close> returns the first table of the environment that equals the given
  one in the sense of the specification (byte-equal configurations once \<open>id\<close> and \<open>rdrid\<close>
  are zeroed and \<open>F_USED\<close>, \<open>F_BACKUP\<close> cleared, send-buffers both absent or equal). For a
  pair of tables it reports the second for the first exactly when they are equal in that
  sense; a table that differs from an existing one only in \<open>rdrid\<close> is identified with it.
\<close>

theorem table_findbyconf_structural:
  "table_findbyconf env tb = List.find (same_table_spec tb) (sc_tables env)
   \<and> ((table_findbyconf (env\<lparr>sc_tables := [t]\<rparr>) tb = Some t) = same_table_spec tb t)
   \<and> ((table_findbyconf (env\<lparr>sc_tables := [t]\<rparr>) tb = None) = (\<not> same_table_spec tb t))
   \<and> table_findbyconf (env\<lparr>sc_tables := [t]\<rparr>) (t\<lparr>conf := (conf t)\<lparr>tc_rdrid := r\<rparr>\<rparr>) = Some t"
proof -
  have f: "table_findbyconf e x = List.find (same_table_spec x) (sc_tables e)" for e x
    unfolding table_findbyconf_def by (rule table_findbyconf_loop_find)
  have s: "same_table_spec (t\<lparr>conf := (conf t)\<lparr>tc_rdrid := r\<rparr>\<rparr>) t"
    by (simp add: same_table_spec_def split: option.splits)
  show ?thesis
    unfolding f using s by simp
qed

theorem table_findbyconf_structural_witness:
  "table_findbyconf (env0\<lparr>sc_tables := [table0]\<rparr>)
       (table0\<lparr>conf := (conf table0)\<lparr>tc_id := 9, tc_rdrid := 7, tc_flags := {F_BACKUP, F_SSL}\<rparr>\<rparr>) = Some table0
   \<and> table_findbyconf (env0\<lparr>sc_tables := [table0]\<rparr>) (table0\<lparr>sendbuf := None\<rparr>) = None
   \<and> table_findbyconf (env0\<lparr>sc_tables := [table0]\<rparr>) (table0\<lparr>conf := (conf table0)\<lparr>tc_rdrid := 7\<rparr>\<rparr>)
       = Some table0"
  using table_findbyconf_structural[of "env0\<lparr>sc_tables := [table0]\<rparr>"
      "table0\<lparr>conf := (conf table0)\<lparr>tc_id := 9, tc_rdrid := 7, tc_flags := {F_BACKUP, F_SSL}\<rparr>\<rparr>" table0 7]
    table_findbyconf_structural[of "env0\<lparr>sc_tables := [table0]\<rparr>" "table0\<lparr>sendbuf := None\<rparr>" table0 7]
  by (simp add: same_table_spec_def table0_def env0_def insert_Diff_if)

subsection \<open>Host names\<close>

declare canon_trim.simps [simp del]

lemma tolower_not_upper: "\<not> isupper (tolower c)"
  by (simp add: tolower_def isupper_def)

lemma canon_trim_Nil [simp]: "canon_trim [] = []"
  by (subst canon_trim.simps) simp

lemma canon_trim_snoc:
  "canon_trim (xs @ [c]) = (if c = CHR ''.'' then canon_trim xs else xs @ [c])"
  by (subst canon_trim.simps) simp

lemma canon_trim_id: "xs \<noteq> [] \<Longrightarrow> last xs \<noteq> CHR ''.'' \<Longrightarrow> canon_trim xs = xs"
  by (subst canon_trim.simps) simp

lemma length_canon_trim: "length (canon_trim xs) \<le> length xs"
proof (induction xs rule: rev_induct)
  case Nil
  show ?case by simp
next
  case (snoc x xs)
  then show ?case by (simp add: canon_trim_snoc)
qed

lemma set_canon_trim: "set (canon_trim xs) \<subseteq> set xs"
proof (induction xs rule: rev_induct)
  case Nil
  show ?case by simp
next
  case (snoc x xs)
  then show ?case by (auto simp: canon_trim_snoc)
qed

lemma canon_scan_squeeze: "canon_scan len host acc = Some r \<Longrightarrow> r = squeeze host acc"
  by (induction host arbitrary: acc) (auto simp: Let_def split: if_splits)

lemma canon_scan_length:
  "canon_scan len host acc = Some r \<Longrightarrow> length acc \<le> len - 1 \<Longrightarrow> length r \<le> len - 1"
  by (induction host arbitrary: acc) (auto simp: Let_def split: if_splits)

lemma canon_scan_overflow:
  "len - 1 < length (squeeze host acc) \<Longrightarrow> length acc \<le> len - 1 \<Longrightarrow> canon_scan len host acc = None"
  by (induction host arbitrary: acc) (auto simp: Let_def split: if_splits)

lemma set_squeeze: "set (squeeze host acc) \<subseteq> set acc \<union> tolower ` set host"
proof (induction host arbitrary: acc)
  case Nil
  show ?case by simp
next
  case (Cons h hs)
  from Cons[of acc] Cons[of "acc @ [tolower h]"] show ?case
    by (auto simp: Let_def)
qed

lemma split_dots_not_Nil: "split_dots xs \<noteq> []"
  by (induction xs) (auto split: list.splits)

lemma split_dots_no_dot: "l \<in> set (split_dots xs) \<Longrightarrow> CHR ''.'' \<notin> set l"
proof (induction xs arbitrary: l)
  case Nil
  then show ?case by simp
next
  case (Cons c cs)
  then show ?case
    by (cases "split_dots cs") (auto simp: split_dots_not_Nil split: if_splits)
qed

lemma join_dots_not_Nil: "ls \<noteq> [] \<Longrightarrow> [] \<notin> set ls \<Longrightarrow> join_dots ls \<noteq> []"
  by (induction ls rule: join_dots.induct) auto

lemma joined_Nil: "joined [] = []"
  by (simp add: joined_def)

lemma joined_Cons:
  "joined (l # ls) = (if l = [] then joined ls else if joined ls = [] then l else l @ CHR ''.'' # joined ls)"
proof (cases "filter (\<lambda>l. l \<noteq> []) ls")
  case Nil
  then show ?thesis by (simp add: joined_def)
next
  case (Cons a as)
  have "[] \<notin> set (filter (\<lambda>l. l \<noteq> []) ls)" by simp
  with Cons have "join_dots (a # as) \<noteq> []"
    by (intro join_dots_not_Nil) auto
  with Cons show ?thesis by (simp add: joined_def)
qed

lemma squeeze_joined:
  "(acc = [] \<or> last acc = CHR ''.'' \<longrightarrow>
      canon_trim (squeeze xs acc) =
        (if joined (split_dots (map tolower xs)) = [] then canon_trim acc
         else acc @ joined (split_dots (map tolower xs))))
   \<and> (acc \<noteq> [] \<and> last acc \<noteq> CHR ''.'' \<longrightarrow>
      canon_trim (squeeze xs acc) =
        acc @ hd (split_dots (map tolower xs))
          @ (if joined (tl (split_dots (map tolower xs))) = [] then []
             else CHR ''.'' # joined (tl (split_dots (map tolower xs)))))"
proof (induction xs arbitrary: acc)
  case Nil
  show ?case
    by (auto simp: joined_Cons joined_Nil canon_trim_id)
next
  case (Cons h hs)
  obtain l0 ls where T: "split_dots (map tolower hs) = l0 # ls"
    using split_dots_not_Nil[of "map tolower hs"] by (cases "split_dots (map tolower hs)") auto
  show ?case
  proof (cases "tolower h = CHR ''.''")
    case True
    have A: "acc = [] \<or> last acc = CHR ''.'' \<Longrightarrow> ?thesis"
      using Cons[of acc] True by (auto simp: joined_Cons)
    have B: "acc \<noteq> [] \<and> last acc \<noteq> CHR ''.'' \<Longrightarrow> ?thesis"
      using Cons[of "acc @ [CHR ''.'']"] True
      by (auto simp: joined_Cons canon_trim_snoc canon_trim_id)
    from A B show ?thesis by blast
  next
    case False
    have "?thesis"
      using Cons[of "acc @ [tolower h]"] False T
      by (auto simp: joined_Cons Let_def)
    then show ?thesis .
  qed
qed

lemma canon_trim_squeeze: "canon_trim (squeeze host []) = canonical_form host"
  using squeeze_joined[of "[]" host]
  by (simp add: canonical_form_def joined_def canon_trim_Nil)

lemma split_dots_literal: "CHR ''.'' \<notin> set l \<Longrightarrow> split_dots l = [l]"
  by (induction l) auto

lemma split_dots_append:
  "CHR ''.'' \<notin> set l \<Longrightarrow> split_dots (l @ CHR ''.'' # rest) = l # split_dots rest"
  by (induction l) auto

lemma split_join_dots:
  "ls \<noteq> [] \<Longrightarrow> \<forall>l\<in>set ls. CHR ''.'' \<notin> set l \<Longrightarrow> split_dots (join_dots ls) = ls"
  by (induction ls rule: join_dots.induct) (auto simp: split_dots_literal split_dots_append)

lemma canonical_form_labels:
  assumes "canonical_form host \<noteq> []"
  shows "[] \<notin> set (split_dots (canonical_form host))"
proof -
  let ?ls = "filter (\<lambda>l. l \<noteq> []) (split_dots (map tolower host))"
  have ne: "?ls \<noteq> []" using assms by (auto simp: canonical_form_def)
  have "\<forall>l\<in>set ?ls. CHR ''.'' \<notin> set l" by (auto dest: split_dots_no_dot)
  with ne have "split_dots (join_dots ?ls) = ?ls" by (rule split_join_dots)
  then show ?thesis by (simp add: canonical_form_def)
qed

lemma dotdot_Cons:
  "dotdot (c # cs) = (cs \<noteq> [] \<and> ((c = CHR ''.'' \<and> hd cs = CHR ''.'') \<or> dotdot cs))"
  by (cases cs) auto

lemma no_empty_label_shape_aux:
  "([] \<notin> set (split_dots xs) \<longrightarrow>
      xs \<noteq> [] \<and> hd xs \<noteq> CHR ''.'' \<and> last xs \<noteq> CHR ''.'' \<and> \<not> dotdot xs)
   \<and> ([] \<notin> set (tl (split_dots xs)) \<longrightarrow> (xs \<noteq> [] \<longrightarrow> last xs \<noteq> CHR ''.'') \<and> \<not> dotdot xs)"
proof (induction xs)
  case Nil
  show ?case by simp
next
  case (Cons c cs)
  obtain l ls where T: "split_dots cs = l # ls"
    using split_dots_not_Nil[of cs] by (cases "split_dots cs") auto
  show ?case
  proof (cases "c = CHR ''.''")
    case True
    with Cons T show ?thesis by (auto simp: dotdot_Cons)
  next
    case False
    with Cons T show ?thesis by (auto simp: dotdot_Cons)
  qed
qed

lemma no_empty_label_shape:
  "[] \<notin> set (split_dots xs) \<Longrightarrow>
     xs \<noteq> [] \<and> hd xs \<noteq> CHR ''.'' \<and> last xs \<noteq> CHR ''.'' \<and> \<not> dotdot xs"
  using no_empty_label_shape_aux[of xs] by blast

text \<open>
  C10. For a host that is not an IPv4 or IPv6 literal, \<open>canonicalize_host\<close> fails with
  \<open>EINVAL\<close> or returns a name that is the canonical form of the host (its non-empty
  labels, lower-cased, joined by single dots): the name is not empty, has no upper-case
  letter, no empty label (no leading dot, no trailing dot, no two dots in a row) and,
  with its terminating NUL, fits the buffer of \<open>len\<close> bytes. It fails whenever
  \<open>len < 2\<close>, or the canonical form is empty, or the canonical form does not fit.
\<close>

theorem canonicalize_host_name:
  assumes "pton_ip host = None" and "pton_ipng host = None"
  shows "(case canonicalize_host pton_ip ntop_ip pton_ipng ntop_ipng host len of
            Inl e \<Rightarrow> e = EINVAL
          | Inr name \<Rightarrow>
              name = canonical_form host \<and> name \<noteq> [] \<and> length name < len
              \<and> \<not> list_ex isupper name \<and> [] \<notin> set (split_dots name)
              \<and> hd name \<noteq> CHR ''.'' \<and> last name \<noteq> CHR ''.'' \<and> \<not> dotdot name)
         \<and> (if len < 2 \<or> canonical_form host = [] \<or> len \<le> length (canonical_form host)
            then canonicalize_host pton_ip ntop_ip pton_ipng ntop_ipng host len = Inl EINVAL
            else True)"
proof (cases "len < 2")
  case True
  then show ?thesis by (simp add: canonicalize_host_def)
next
  case len: False
  show ?thesis
  proof (cases "canon_scan len host []")
    case None
    with assms len show ?thesis by (simp add: canonicalize_host_def)
  next
    case (Some r)
    have r: "r = squeeze host []" using Some by (rule canon_scan_squeeze)
    have t: "canon_trim r = canonical_form host" by (simp add: r canon_trim_squeeze)
    have lr: "length r \<le> len - 1" using Some by (rule canon_scan_length) simp
    have fit: "length (canonical_form host) < len"
      using length_canon_trim[of r] lr len unfolding t by simp
    have val: "canonicalize_host pton_ip ntop_ip pton_ipng ntop_ipng host len =
        (if canonical_form host = [] then Inl EINVAL else Inr (canonical_form host))"
      using assms len Some t by (simp add: canonicalize_host_def Let_def)
    show ?thesis
    proof (cases "canonical_form host = []")
      case True
      with val show ?thesis by simp
    next
      case False
      have up: "\<not> list_ex isupper (canonical_form host)"
      proof -
        have "set (canonical_form host) \<subseteq> tolower ` set host"
          using set_canon_trim[of r] set_squeeze[of host "[]"] unfolding t r[symmetric] by auto
        then show ?thesis by (auto simp: list_ex_iff tolower_not_upper)
      qed
      from canonical_form_labels[OF False] no_empty_label_shape[of "canonical_form host"]
      have "[] \<notin> set (split_dots (canonical_form host))"
        "hd (canonical_form host) \<noteq> CHR ''.''" "last (canonical_form host) \<noteq> CHR ''.''"
        "\<not> dotdot (canonical_form host)" by auto
      with val False fit up len show ?thesis by simp
    qed
  qed
qed

theorem canonicalize_host_name_witness:
  "(\<lambda>h. None :: unit option) ''..WWW..Example.COM..'' = None
   \<and> canonicalize_host (\<lambda>h. None :: unit option) (\<lambda>a n. Inl ENOSPC) (\<lambda>h. None :: unit option)
        (\<lambda>a n. Inl ENOSPC) ''..WWW..Example.COM..'' 64 = Inr ''www.example.com''
   \<and> canonical_form ''..WWW..Example.COM..'' = ''www.example.com''
   \<and> canonicalize_host (\<lambda>h. None :: unit option) (\<lambda>a n. Inl ENOSPC) (\<lambda>h. None :: unit option)
        (\<lambda>a n. Inl ENOSPC) ''..WWW..Example.COM..'' 15 = Inl EINVAL
   \<and> canonicalize_host (\<lambda>h. None :: unit option) (\<lambda>a n. Inl ENOSPC) (\<lambda>h. None :: unit option)
        (\<lambda>a n. Inl ENOSPC) ''...'' 64 = Inl EINVAL"
proof -
  have n: "(\<lambda>h. None :: unit option) x = None" for x by simp
  have c: "canonical_form ''..WWW..Example.COM..'' = ''www.example.com''" by code_simp
  have d: "canonical_form ''...'' = []" by code_simp
  from canonicalize_host_name[where pton_ip = "\<lambda>h. None :: unit option" and host = "''..WWW..Example.COM..''"
      and pton_ipng = "\<lambda>h. None :: unit option" and ntop_ip = "\<lambda>a n. Inl ENOSPC"
      and ntop_ipng = "\<lambda>a n. Inl ENOSPC" and len = 64, OF n n]
  have 1: "canonicalize_host (\<lambda>h. None :: unit option) (\<lambda>a n. Inl ENOSPC) (\<lambda>h. None :: unit option)
        (\<lambda>a n. Inl ENOSPC) ''..WWW..Example.COM..'' 64 = Inr ''www.example.com''"
    by code_simp
  from canonicalize_host_name[where pton_ip = "\<lambda>h. None :: unit option" and host = "''..WWW..Example.COM..''"
      and pton_ipng = "\<lambda>h. None :: unit option" and ntop_ip = "\<lambda>a n. Inl ENOSPC"
      and ntop_ipng = "\<lambda>a n. Inl ENOSPC" and len = 15, OF n n]
  have 2: "canonicalize_host (\<lambda>h. None :: unit option) (\<lambda>a n. Inl ENOSPC) (\<lambda>h. None :: unit option)
        (\<lambda>a n. Inl ENOSPC) ''..WWW..Example.COM..'' 15 = Inl EINVAL"
    unfolding c by simp
  from canonicalize_host_name[where pton_ip = "\<lambda>h. None :: unit option" and host = "''...''"
      and pton_ipng = "\<lambda>h. None :: unit option" and ntop_ip = "\<lambda>a n. Inl ENOSPC"
      and ntop_ipng = "\<lambda>a n. Inl ENOSPC" and len = 64, OF n n]
  have 3: "canonicalize_host (\<lambda>h. None :: unit option) (\<lambda>a n. Inl ENOSPC) (\<lambda>h. None :: unit option)
        (\<lambda>a n. Inl ENOSPC) ''...'' 64 = Inl EINVAL"
    unfolding d by simp
  from 1 2 3 c show ?thesis by simp
qed

subsection \<open>The error contract of key operations\<close>

lemma pkey_find_loop_None: "pkey_find_loop ks i = None \<longleftrightarrow> i \<notin> pkey_id ` set ks"
  by (induction ks) auto

text \<open>
  C1 (as amended). A key operation request that passes the size and process checks and
  whose object id is not in the pkey table makes the CA worker end with \<open>fatalx\<close>; no reply
  is sent. A request whose key is found and whose operation returns the length 0 is
  answered with the \<open>ctl_keyop\<close> structure alone (a zero-length reply), and the worker goes
  on. On the relay's side a zero-length reply makes the RSA method return 0.
\<close>

theorem ca_keyop_error_contract:
  "(hdr_type m \<in> {IMSG_CA_PRIVENC, IMSG_CA_PRIVDEC} \<and> imsg_cko m = Some cko
      \<and> cko_proc cko \<le> int (sc_prefork_relay env) \<and> int (length (imsg_payload m)) = cko_flen cko
      \<and> sc_pkeys env = Some ks \<and> cko_id cko \<notin> pkey_id ` set ks
    \<longrightarrow> ca_dispatch_relay rsa_private env m
          = Inl (Fatalx ''ca_dispatch_relay: invalid relay key or id''))
   \<and> (hdr_type m \<in> {IMSG_CA_PRIVENC, IMSG_CA_PRIVDEC} \<and> imsg_cko m = Some cko
      \<and> cko_proc cko \<le> int (sc_prefork_relay env) \<and> int (length (imsg_payload m)) = cko_flen cko
      \<and> sc_pkeys env = Some ks \<and> pkey_find_loop ks (cko_id cko) = Some k
      \<and> EVP_PKEY_get1_RSA k = Some rsa \<and> 0 \<le> cko_tlen cko
      \<and> fst (rsa_private (hdr_type m) (cko_flen cko) (imsg_payload m)
               (replicate (nat (cko_tlen cko)) 0) rsa (cko_padding cko)) = 0
    \<longrightarrow> ca_dispatch_relay rsa_private env m
          = Inr (0, [Composev_imsg PROC_RELAY (cko_proc cko) (hdr_type m) (-1)
                       [Iov_keyop (cko\<lparr>cko_tlen := 0\<rparr>)]]))
   \<and> (rsa_ex_data h = Some i \<and> hdr_type r = cmd \<and> imsg_cko r = Some rcko \<and> cko_tlen rcko = 0
      \<and> imsg_payload r = []
    \<longrightarrow> fst (rsae_send_imsg proc_id flen buf h padding cmd (Read_ok (Get_imsg r # gs) # rs))
          = Rsa_return 0 [])"
proof (intro conjI impI)
  assume a: "hdr_type m \<in> {IMSG_CA_PRIVENC, IMSG_CA_PRIVDEC} \<and> imsg_cko m = Some cko
      \<and> cko_proc cko \<le> int (sc_prefork_relay env) \<and> int (length (imsg_payload m)) = cko_flen cko
      \<and> sc_pkeys env = Some ks \<and> cko_id cko \<notin> pkey_id ` set ks"
  then have "pkey_find env (cko_id cko) = Inr None"
    by (simp add: pkey_find_def pkey_find_loop_None)
  with a show "ca_dispatch_relay rsa_private env m
          = Inl (Fatalx ''ca_dispatch_relay: invalid relay key or id'')"
    by (auto simp: ca_dispatch_relay_def)
next
  assume a: "hdr_type m \<in> {IMSG_CA_PRIVENC, IMSG_CA_PRIVDEC} \<and> imsg_cko m = Some cko
      \<and> cko_proc cko \<le> int (sc_prefork_relay env) \<and> int (length (imsg_payload m)) = cko_flen cko
      \<and> sc_pkeys env = Some ks \<and> pkey_find_loop ks (cko_id cko) = Some k
      \<and> EVP_PKEY_get1_RSA k = Some rsa \<and> 0 \<le> cko_tlen cko
      \<and> fst (rsa_private (hdr_type m) (cko_flen cko) (imsg_payload m)
               (replicate (nat (cko_tlen cko)) 0) rsa (cko_padding cko)) = 0"
  then have f: "pkey_find env (cko_id cko) = Inr (Some k)"
    by (simp add: pkey_find_def)
  obtain to' where r: "rsa_private (hdr_type m) (cko_flen cko) (imsg_payload m)
               (replicate (nat (cko_tlen cko)) 0) rsa (cko_padding cko) = (0, to')"
    using a by (cases "rsa_private (hdr_type m) (cko_flen cko) (imsg_payload m)
               (replicate (nat (cko_tlen cko)) 0) rsa (cko_padding cko)") auto
  from a f r show "ca_dispatch_relay rsa_private env m
          = Inr (0, [Composev_imsg PROC_RELAY (cko_proc cko) (hdr_type m) (-1)
                       [Iov_keyop (cko\<lparr>cko_tlen := 0\<rparr>)]])"
    by (auto simp: ca_dispatch_relay_def)
next
  assume "rsa_ex_data h = Some i \<and> hdr_type r = cmd \<and> imsg_cko r = Some rcko \<and> cko_tlen rcko = 0
      \<and> imsg_payload r = []"
  then show "fst (rsae_send_imsg proc_id flen buf h padding cmd (Read_ok (Get_imsg r # gs) # rs))
          = Rsa_return 0 []"
    by (simp add: rsae_send_imsg_def)
qed

theorem ca_keyop_error_contract_witness:
  "hdr_type req9 \<in> {IMSG_CA_PRIVENC, IMSG_CA_PRIVDEC}
   \<and> sc_pkeys env_ca = Some [\<lparr>pkey = EVP_PKEY (Some (RSA 1)), pkey_id = 7\<rparr>]
   \<and> (9 :: objid_t) \<notin> pkey_id ` set [\<lparr>pkey = EVP_PKEY (Some (RSA 1)), pkey_id = 7\<rparr>]
   \<and> ca_dispatch_relay rsa_returns_zero env_ca req9
       = Inl (Fatalx ''ca_dispatch_relay: invalid relay key or id'')
   \<and> pkey_find_loop [\<lparr>pkey = EVP_PKEY (Some (RSA 1)), pkey_id = 7\<rparr>] 7 = Some (EVP_PKEY (Some (RSA 1)))
   \<and> ca_dispatch_relay rsa_returns_zero env_ca req7
       = Inr (0, [Composev_imsg PROC_RELAY 0 IMSG_CA_PRIVDEC (-1)
            [Iov_keyop \<lparr>cko_id = 7, cko_proc = 0, cko_flen = 2, cko_tlen = 0, cko_padding = 1\<rparr>]])
   \<and> fst (rsae_send_imsg 0 2 [1, 2] \<lparr>rsa_ex_data = Some 7, rsa_size = 4\<rparr> 1 IMSG_CA_PRIVDEC
            [Read_ok [Get_imsg reply_empty]]) = Rsa_return 0 []"
proof -
  note t1 = ca_keyop_error_contract[where m = req9 and env = env_ca and rsa_private = rsa_returns_zero
      and cko = "\<lparr>cko_id = 9, cko_proc = 0, cko_flen = 2, cko_tlen = 4, cko_padding = 1\<rparr>"
      and ks = "[\<lparr>pkey = EVP_PKEY (Some (RSA 1)), pkey_id = 7\<rparr>]"]
  note t2 = ca_keyop_error_contract[where m = req7 and env = env_ca and rsa_private = rsa_returns_zero
      and cko = "\<lparr>cko_id = 7, cko_proc = 0, cko_flen = 2, cko_tlen = 4, cko_padding = 1\<rparr>"
      and ks = "[\<lparr>pkey = EVP_PKEY (Some (RSA 1)), pkey_id = 7\<rparr>]"
      and k = "EVP_PKEY (Some (RSA 1))" and rsa = "RSA 1"
      and h = "\<lparr>rsa_ex_data = Some 7, rsa_size = 4\<rparr>" and i = 7 and r = reply_empty
      and cmd = IMSG_CA_PRIVDEC
      and rcko = "\<lparr>cko_id = 7, cko_proc = 0, cko_flen = 2, cko_tlen = 0, cko_padding = 1\<rparr>"
      and proc_id = 0 and flen = 2 and buf = "[1, 2]" and padding = 1 and gs = "[]" and rs = "[]"]
  have 1: "ca_dispatch_relay rsa_returns_zero env_ca req9
       = Inl (Fatalx ''ca_dispatch_relay: invalid relay key or id'')"
    using t1 by (simp add: req9_def env_ca_def env0_def)
  have 2: "ca_dispatch_relay rsa_returns_zero env_ca req7
       = Inr (0, [Composev_imsg PROC_RELAY 0 IMSG_CA_PRIVDEC (-1)
            [Iov_keyop \<lparr>cko_id = 7, cko_proc = 0, cko_flen = 2, cko_tlen = 0, cko_padding = 1\<rparr>]])"
    using t2 by (simp add: req7_def env_ca_def env0_def rsa_returns_zero_def)
  have 3: "fst (rsae_send_imsg 0 2 [1, 2] \<lparr>rsa_ex_data = Some 7, rsa_size = 4\<rparr> 1 IMSG_CA_PRIVDEC
            [Read_ok [Get_imsg reply_empty]]) = Rsa_return 0 []"
    using t2 by (simp add: reply_empty_def)
  from 1 2 3 show ?thesis
    by (simp add: req9_def env_ca_def)
qed

text \<open>
  C1, the claim as stated, fails: the CA holds a key under object id 7 only, and a
  well-formed \<open>IMSG_CA_PRIVDEC\<close> request names object id 9. The CA worker does not answer
  with a zero-length reply: it terminates with \<open>fatalx\<close>.
\<close>

theorem ca_unknown_objid_counterexample:
  "pkey_find env_ca 9 = Inr None
   \<and> imsg_cko req9 = Some \<lparr>cko_id = 9, cko_proc = 0, cko_flen = 2, cko_tlen = 4, cko_padding = 1\<rparr>
   \<and> ca_dispatch_relay rsa_returns_zero env_ca req9
       = Inl (Fatalx ''ca_dispatch_relay: invalid relay key or id'')"
  by (simp add: ca_dispatch_relay_def pkey_find_def env_ca_def env0_def req9_def)

subsection \<open>Purging the keys\<close>

lemma bind_err_Inr: "bind_err m f = Inr y \<longleftrightarrow> (\<exists>x. m = Inr x \<and> f x = Inr y)"
  by (cases m) (simp_all add: bind_err_def)

lemma purge_key_nonzero:
  "purge_key ptr len = Inr (ptr', freed) \<Longrightarrow> len \<noteq> 0 \<Longrightarrow>
     ptr' = None \<and> (\<forall>key. ptr = Some key \<longrightarrow>
        0 < len \<and> len \<le> int (length key) \<and> freed = [bzero key (nat len)])"
  by (auto simp: purge_key_def split: option.splits if_splits)

lemma ca_launch_key_purged:
  "ca_launch_key bio_new pem_read env ptr len keyid = Inr (k, env', ptr', freed) \<Longrightarrow> len \<noteq> 0 \<Longrightarrow>
     ptr' = None \<and> (\<forall>key. ptr = Some key \<longrightarrow>
        0 < len \<and> len \<le> int (length key) \<and> freed = [bzero key (nat len)])"
  unfolding ca_launch_key_def
  by (auto split: option.splits sum.splits dest!: purge_key_nonzero)

lemma ca_launch_ssl_key_purged:
  "ca_launch_ssl_key bio_new pem_read rlay env = Inr (r, env', freed) \<Longrightarrow>
     rl_conf r = rl_conf rlay \<and> rl_ssl_cakey r = rl_ssl_cakey rlay
     \<and> (ssl_key_len (rl_conf rlay) \<noteq> 0 \<longrightarrow> rl_ssl_key r = None
          \<and> (\<forall>key. rl_ssl_key rlay = Some key \<longrightarrow>
                0 < ssl_key_len (rl_conf rlay) \<and> ssl_key_len (rl_conf rlay) \<le> int (length key)
                \<and> freed = [bzero key (nat (ssl_key_len (rl_conf rlay)))]))"
  unfolding ca_launch_ssl_key_def
  by (auto simp: bind_err_Inr split: if_splits dest!: ca_launch_key_purged)

lemma ca_launch_ssl_cakey_purged:
  "ca_launch_ssl_cakey bio_new pem_read rlay env = Inr (r, env', freed) \<Longrightarrow>
     rl_conf r = rl_conf rlay \<and> rl_ssl_key r = rl_ssl_key rlay
     \<and> (ssl_cakey_len (rl_conf rlay) \<noteq> 0 \<longrightarrow> rl_ssl_cakey r = None
          \<and> (\<forall>key. rl_ssl_cakey rlay = Some key \<longrightarrow>
                0 < ssl_cakey_len (rl_conf rlay) \<and> ssl_cakey_len (rl_conf rlay) \<le> int (length key)
                \<and> freed = [bzero key (nat (ssl_cakey_len (rl_conf rlay)))]))"
  unfolding ca_launch_ssl_cakey_def
  by (auto simp: bind_err_Inr split: if_splits dest!: ca_launch_key_purged)

lemma ca_launch_ssl_cert_keeps:
  "ca_launch_ssl_cert rlay = Inr (r, freed) \<Longrightarrow>
     rl_conf r = rl_conf rlay \<and> rl_ssl_key r = rl_ssl_key rlay \<and> rl_ssl_cakey r = rl_ssl_cakey rlay"
  unfolding ca_launch_ssl_cert_def by (auto simp: bind_err_Inr split: if_splits)

lemma ca_launch_ssl_cacert_keeps:
  "ca_launch_ssl_cacert rlay = Inr (r, freed) \<Longrightarrow>
     rl_conf r = rl_conf rlay \<and> rl_ssl_key r = rl_ssl_key rlay \<and> rl_ssl_cakey r = rl_ssl_cakey rlay"
  unfolding ca_launch_ssl_cacert_def by (auto simp: bind_err_Inr split: if_splits)

lemma ca_launch_relay_purged:
  assumes "ca_launch_relay bio_new pem_read rlay env = Inr (rlay', env', freed)"
    and "rc_flags (rl_conf rlay) \<inter> {F_SSL, F_SSLCLIENT} \<noteq> {}"
  shows "(ssl_key_len (rl_conf rlay) \<noteq> 0 \<longrightarrow> rl_ssl_key rlay' = None
            \<and> (\<forall>key. rl_ssl_key rlay = Some key \<longrightarrow>
                  0 < ssl_key_len (rl_conf rlay) \<and> ssl_key_len (rl_conf rlay) \<le> int (length key)
                  \<and> bzero key (nat (ssl_key_len (rl_conf rlay))) \<in> set freed))
       \<and> (ssl_cakey_len (rl_conf rlay) \<noteq> 0 \<longrightarrow> rl_ssl_cakey rlay' = None
            \<and> (\<forall>key. rl_ssl_cakey rlay = Some key \<longrightarrow>
                  0 < ssl_cakey_len (rl_conf rlay) \<and> ssl_cakey_len (rl_conf rlay) \<le> int (length key)
                  \<and> bzero key (nat (ssl_cakey_len (rl_conf rlay))) \<in> set freed))"
proof -
  from assms obtain r1 env1 f1 r2 f2 r3 env3 f3 r4 f4 where
    s1: "ca_launch_ssl_key bio_new pem_read rlay env = Inr (r1, env1, f1)"
    and s2: "ca_launch_ssl_cert r1 = Inr (r2, f2)"
    and s3: "ca_launch_ssl_cakey bio_new pem_read r2 env1 = Inr (r3, env3, f3)"
    and s4: "ca_launch_ssl_cacert r3 = Inr (r4, f4)"
    and res: "rlay' = r4" "freed = f1 @ f2 @ f3 @ f4"
    unfolding ca_launch_relay_def by (auto simp: bind_err_Inr)
  note p1 = ca_launch_ssl_key_purged[OF s1]
  note p2 = ca_launch_ssl_cert_keeps[OF s2]
  note p3 = ca_launch_ssl_cakey_purged[OF s3]
  note p4 = ca_launch_ssl_cacert_keeps[OF s4]
  show ?thesis
    unfolding res using p1 p2 p3 p4 by auto
qed

lemma ca_launch_relay_skipped:
  "ca_launch_relay bio_new pem_read rlay env = Inr (rlay', env', freed) \<Longrightarrow>
   rc_flags (rl_conf rlay) \<inter> {F_SSL, F_SSLCLIENT} = {} \<Longrightarrow> rlay' = rlay \<and> freed = []"
  by (simp add: ca_launch_relay_def)

lemma ca_launch_loop_nth:
  "ca_launch_loop bio_new pem_read rlays env = Inr (rlays', env', freed) \<Longrightarrow>
     length rlays' = length rlays
     \<and> (\<forall>i<length rlays. \<exists>e e' f. ca_launch_relay bio_new pem_read (rlays ! i) e = Inr (rlays' ! i, e', f)
            \<and> set f \<subseteq> set freed)"
proof (induction rlays arbitrary: env rlays' env' freed)
  case Nil
  then show ?case by simp
next
  case (Cons r rs)
  from Cons.prems obtain r' e1 f1 rs' f2 where
    h: "ca_launch_relay bio_new pem_read r env = Inr (r', e1, f1)"
    and t: "ca_launch_loop bio_new pem_read rs e1 = Inr (rs', env', f2)"
    and res: "rlays' = r' # rs'" "freed = f1 @ f2"
    by (auto split: sum.splits)
  from Cons.IH[OF t] have len: "length rs' = length rs"
    and ih: "\<forall>i<length rs. \<exists>e e' f. ca_launch_relay bio_new pem_read (rs ! i) e = Inr (rs' ! i, e', f)
            \<and> set f \<subseteq> set f2" by auto
  show ?case
  proof (intro conjI allI impI)
    show "length rlays' = length (r # rs)" using res len by simp
  next
    fix i assume i: "i < length (r # rs)"
    show "\<exists>e e' f. ca_launch_relay bio_new pem_read ((r # rs) ! i) e = Inr (rlays' ! i, e', f)
            \<and> set f \<subseteq> set freed"
    proof (cases i)
      case 0
      with h res show ?thesis by auto
    next
      case (Suc j)
      with i ih obtain e e' f where "ca_launch_relay bio_new pem_read (rs ! j) e = Inr (rs' ! j, e', f)"
        "set f \<subseteq> set f2" by auto
      with Suc res show ?thesis by auto
    qed
  qed
qed

lemma bzero_all: "bzero key (length key) = replicate (length key) 0"
  by (simp add: bzero_def)

text \<open>
  C8 (as amended). \<open>purge_key\<close> on a pointer that is not \<open>NULL\<close>, with the non-zero length
  of its buffer, leaves the pointer \<open>NULL\<close> and frees the buffer filled with zeros over its
  whole length; on a \<open>NULL\<close> pointer or a zero length it changes nothing. When \<open>ca_launch\<close>
  returns, every relay that has \<open>F_SSL\<close> or \<open>F_SSLCLIENT\<close> set and a non-zero key length
  (SSL key or CA key) has the pointer to that PEM copy \<open>NULL\<close>, and the copy was zero-filled
  over that length before it was freed. A relay with neither flag is passed over as it is.
\<close>

theorem purge_key_ca_launch:
  "(ptr = Some key \<and> len \<noteq> 0 \<and> int (length key) = len
      \<longrightarrow> purge_key ptr len = Inr (None, [replicate (length key) 0]))
   \<and> (ptr = None \<or> len = 0 \<longrightarrow> purge_key ptr len = Inr (ptr, []))
   \<and> (ca_launch bio_new pem_read env = Inr (env', freed) \<and> i < length (sc_relays env)
        \<and> rc_flags (rl_conf (sc_relays env ! i)) \<inter> {F_SSL, F_SSLCLIENT} \<noteq> {}
      \<longrightarrow> length (sc_relays env') = length (sc_relays env)
          \<and> (ssl_key_len (rl_conf (sc_relays env ! i)) \<noteq> 0 \<longrightarrow>
                rl_ssl_key (sc_relays env' ! i) = None
                \<and> (\<forall>k. rl_ssl_key (sc_relays env ! i) = Some k
                         \<and> int (length k) = ssl_key_len (rl_conf (sc_relays env ! i))
                       \<longrightarrow> replicate (length k) 0 \<in> set freed))
          \<and> (ssl_cakey_len (rl_conf (sc_relays env ! i)) \<noteq> 0 \<longrightarrow>
                rl_ssl_cakey (sc_relays env' ! i) = None
                \<and> (\<forall>k. rl_ssl_cakey (sc_relays env ! i) = Some k
                         \<and> int (length k) = ssl_cakey_len (rl_conf (sc_relays env ! i))
                       \<longrightarrow> replicate (length k) 0 \<in> set freed)))
   \<and> (ca_launch bio_new pem_read env = Inr (env', freed) \<and> i < length (sc_relays env)
        \<and> rc_flags (rl_conf (sc_relays env ! i)) \<inter> {F_SSL, F_SSLCLIENT} = {}
      \<longrightarrow> sc_relays env' ! i = sc_relays env ! i)"
proof -
  have A: "ptr = Some key \<and> len \<noteq> 0 \<and> int (length key) = len
      \<longrightarrow> purge_key ptr len = Inr (None, [replicate (length key) 0])"
    by (auto simp: purge_key_def bzero_def)
  have B: "ptr = None \<or> len = 0 \<longrightarrow> purge_key ptr len = Inr (ptr, [])"
    by (auto simp: purge_key_def split: option.splits)
  have C: "length (sc_relays env') = length (sc_relays env)
          \<and> (ssl_key_len (rl_conf (sc_relays env ! i)) \<noteq> 0 \<longrightarrow>
                rl_ssl_key (sc_relays env' ! i) = None
                \<and> (\<forall>k. rl_ssl_key (sc_relays env ! i) = Some k
                         \<and> int (length k) = ssl_key_len (rl_conf (sc_relays env ! i))
                       \<longrightarrow> replicate (length k) 0 \<in> set freed))
          \<and> (ssl_cakey_len (rl_conf (sc_relays env ! i)) \<noteq> 0 \<longrightarrow>
                rl_ssl_cakey (sc_relays env' ! i) = None
                \<and> (\<forall>k. rl_ssl_cakey (sc_relays env ! i) = Some k
                         \<and> int (length k) = ssl_cakey_len (rl_conf (sc_relays env ! i))
                       \<longrightarrow> replicate (length k) 0 \<in> set freed))"
    if a: "ca_launch bio_new pem_read env = Inr (env', freed) \<and> i < length (sc_relays env)
        \<and> rc_flags (rl_conf (sc_relays env ! i)) \<inter> {F_SSL, F_SSLCLIENT} \<noteq> {}"
  proof -
    from a obtain rs e where l: "ca_launch_loop bio_new pem_read (sc_relays env) env = Inr (rs, e, freed)"
      and rs: "sc_relays env' = rs"
      by (auto simp: ca_launch_def split: sum.splits)
    from ca_launch_loop_nth[OF l] a obtain e1 e2 f where
      len: "length rs = length (sc_relays env)"
      and r: "ca_launch_relay bio_new pem_read (sc_relays env ! i) e1 = Inr (rs ! i, e2, f)"
      and f: "set f \<subseteq> set freed" by blast
    from a have fl: "rc_flags (rl_conf (sc_relays env ! i)) \<inter> {F_SSL, F_SSLCLIENT} \<noteq> {}" by simp
    note p = ca_launch_relay_purged[OF r fl]
    have k1: "replicate (length k) 0 \<in> set freed"
      if "ssl_key_len (rl_conf (sc_relays env ! i)) \<noteq> 0" "rl_ssl_key (sc_relays env ! i) = Some k"
        "int (length k) = ssl_key_len (rl_conf (sc_relays env ! i))" for k
    proof -
      from p that have "bzero k (nat (ssl_key_len (rl_conf (sc_relays env ! i)))) \<in> set f" by blast
      moreover from that have "nat (ssl_key_len (rl_conf (sc_relays env ! i))) = length k" by auto
      ultimately show ?thesis using f by (auto simp: bzero_all)
    qed
    have k2: "replicate (length k) 0 \<in> set freed"
      if "ssl_cakey_len (rl_conf (sc_relays env ! i)) \<noteq> 0" "rl_ssl_cakey (sc_relays env ! i) = Some k"
        "int (length k) = ssl_cakey_len (rl_conf (sc_relays env ! i))" for k
    proof -
      from p that have "bzero k (nat (ssl_cakey_len (rl_conf (sc_relays env ! i)))) \<in> set f" by blast
      moreover from that have "nat (ssl_cakey_len (rl_conf (sc_relays env ! i))) = length k" by auto
      ultimately show ?thesis using f by (auto simp: bzero_all)
    qed
    from p rs len k1 k2 show ?thesis by simp
  qed
  have D: "sc_relays env' ! i = sc_relays env ! i"
    if a: "ca_launch bio_new pem_read env = Inr (env', freed) \<and> i < length (sc_relays env)
        \<and> rc_flags (rl_conf (sc_relays env ! i)) \<inter> {F_SSL, F_SSLCLIENT} = {}"
  proof -
    from a obtain rs e where l: "ca_launch_loop bio_new pem_read (sc_relays env) env = Inr (rs, e, freed)"
      and rs: "sc_relays env' = rs"
      by (auto simp: ca_launch_def split: sum.splits)
    from ca_launch_loop_nth[OF l] a obtain e1 e2 f where
      r: "ca_launch_relay bio_new pem_read (sc_relays env ! i) e1 = Inr (rs ! i, e2, f)" by blast
    from ca_launch_relay_skipped[OF r] a rs show ?thesis by simp
  qed
  from A B C D show ?thesis by blast
qed

lemma ca_launch_env_launch:
  "ca_launch bio_mem pem_any env_launch = Inr (env_launched, [[0, 0, 0]])"
  by code_simp

theorem purge_key_ca_launch_witness:
  "purge_key (Some [45, 45, 45]) 3 = Inr (None, [[0, 0, 0]])
   \<and> purge_key None 3 = Inr (None, [])
   \<and> purge_key (Some [45, 45, 45]) 0 = Inr (Some [45, 45, 45], [])
   \<and> ca_launch bio_mem pem_any env_launch = Inr (env_launched, [[0, 0, 0]])
   \<and> rc_flags (rl_conf (sc_relays env_launch ! 0)) \<inter> {F_SSL, F_SSLCLIENT} \<noteq> {}
   \<and> ssl_key_len (rl_conf (sc_relays env_launch ! 0)) \<noteq> 0
   \<and> rl_ssl_key (sc_relays env_launch ! 0) = Some [45, 45, 45]
   \<and> rl_ssl_key (sc_relays env_launched ! 0) = None
   \<and> replicate (length [45 :: 8 word, 45, 45]) (0 :: 8 word) \<in> set [[0, 0, 0]]
   \<and> rc_flags (rl_conf (sc_relays env_launch ! 1)) \<inter> {F_SSL, F_SSLCLIENT} = {}
   \<and> sc_relays env_launched ! 1 = sc_relays env_launch ! 1"
proof -
  note t1 = purge_key_ca_launch[where ptr = "Some [45, 45, 45]" and key = "[45, 45, 45]" and len = 3
      and bio_new = bio_mem and pem_read = pem_any and env = env_launch and env' = env_launched
      and freed = "[[0, 0, 0]]" and i = 0]
  note t2 = purge_key_ca_launch[where ptr = None and len = 3
      and bio_new = bio_mem and pem_read = pem_any and env = env_launch and env' = env_launched
      and freed = "[[0, 0, 0]]" and i = 1]
  note t3 = purge_key_ca_launch[where ptr = "Some [45, 45, 45]" and len = 0
      and bio_new = bio_mem and pem_read = pem_any and env = env_launch and env' = env_launched
      and freed = "[[0, 0, 0]]" and i = 1]
  have e: "sc_relays env_launch = [relay_tls, relay_plain]" by (simp add: env_launch_def)
  have f: "rc_flags (rl_conf relay_tls) = {F_SSL}" "rc_flags (rl_conf relay_plain) = {}"
    "ssl_key_len (rl_conf relay_tls) = 3" "rl_ssl_key relay_tls = Some [45, 45, 45]"
    by (simp_all add: relay_tls_def relay_plain_def relay0_def)
  have 1: "purge_key (Some [45, 45, 45]) 3 = Inr (None, [[0, 0, 0]])"
    using t1 by (simp add: eval_nat_numeral)
  have 2: "purge_key None 3 = Inr (None, [])" using t2 by simp
  have 3: "purge_key (Some [45, 45, 45]) 0 = Inr (Some [45, 45, 45], [])" using t3 by simp
  have 4: "rl_ssl_key (sc_relays env_launched ! 0) = None"
    using t1 ca_launch_env_launch by (simp add: e f)
  have 5: "sc_relays env_launched ! 1 = sc_relays env_launch ! 1"
    using t2 ca_launch_env_launch by (simp add: e f)
  from 1 2 3 4 5 ca_launch_env_launch show ?thesis
    by (simp add: e f eval_nat_numeral)
qed

text \<open>
  C8, the claim as stated, fails for a relay entry that has an SSL key but neither
  \<open>F_SSL\<close> nor \<open>F_SSLCLIENT\<close>: \<open>ca_launch\<close> returns, and the PEM bytes of the second relay
  of \<open>env_launch\<close> are where they were.
\<close>

theorem ca_launch_purges_every_key_counterexample:
  "ca_launch bio_mem pem_any env_launch = Inr (env_launched, [[0, 0, 0]])
   \<and> ssl_key_len (rl_conf (sc_relays env_launch ! 1)) = 3
   \<and> rl_ssl_key (sc_relays env_launch ! 1) = Some [45, 45, 45]
   \<and> rl_ssl_key (sc_relays env_launched ! 1) = Some [45, 45, 45]"
proof -
  have "ssl_key_len (rl_conf (sc_relays env_launch ! 1)) = 3"
    "rl_ssl_key (sc_relays env_launch ! 1) = Some [45, 45, 45]"
    "rl_ssl_key (sc_relays env_launched ! 1) = Some [45, 45, 45]"
    by (simp_all add: env_launch_def env_launched_def relay_plain_def)
  with ca_launch_env_launch show ?thesis by blast
qed

subsection \<open>The flags of a pattern\<close>

lemma kv_type_kv_checked [simp]: "kv_type (kv_checked nofile kv) = kv_type kv"
  by (simp add: kv_checked_def Let_def)

lemma kv_value_kv_checked [simp]: "kv_value (kv_checked nofile kv) = kv_value kv"
  by (simp add: kv_checked_def Let_def)

lemma strpbrk_glob:
  "strpbrk k ''*?['' \<longleftrightarrow> CHR ''*'' \<in> set k \<or> CHR ''?'' \<in> set k \<or> CHR ''['' \<in> set k"
  by (auto simp: strpbrk_def list_ex_iff)

lemma flags_spec_kv_checked: "flags_spec (kv_checked nofile kv)"
  by (auto simp: flags_spec_def kv_checked_def Let_def strpbrk_glob strchr_def split: option.splits)

lemma kv_checked_macro:
  "kv_value kv = Some v \<Longrightarrow> CHR ''$'' \<in> set v \<Longrightarrow> KV_FLAG_MACRO \<in> kv_flags (kv_checked nofile kv)"
  by (auto simp: kv_checked_def Let_def strchr_def)

lemma kv_checked_globbing:
  "kv_key kv = Some k \<Longrightarrow> CHR ''*'' \<in> set k \<or> CHR ''?'' \<in> set k \<or> CHR ''['' \<in> set k \<Longrightarrow>
     KV_FLAG_GLOBBING \<in> kv_flags (kv_checked nofile kv)"
  by (auto simp: kv_checked_def Let_def strpbrk_glob)

lemma rule_add_kvs_step:
  "rule_add_kvs nofile dir (i # is) kvs =
     (if kv_type (kvs i) \<noteq> i then rule_add_kvs nofile dir is kvs
      else if i \<in> {KEY_TYPE_QUERY, KEY_TYPE_PATH, KEY_TYPE_URL} \<and> dir \<noteq> RELAY_DIR_REQUEST
        then (False, kvs(i := (if kv_option (kvs i) = KEY_OPTION_LOG \<and> kv_key (kvs i) = None \<and> nofile
                       then (kvs i)\<lparr>kv_key := Some ''*''\<rparr> else kvs i)))
      else rule_add_kvs nofile dir is (kvs(i := kv_checked nofile (kvs i))))"
proof (cases "kv_type (kvs i) = i")
  case False
  then show ?thesis by simp
next
  case True
  define kv1 where "kv1 = (if kv_option (kvs i) = KEY_OPTION_LOG \<and> kv_key (kvs i) = None \<and> nofile
                       then (kvs i)\<lparr>kv_key := Some ''*''\<rparr> else kvs i)"
  have t: "kv_type kv1 = i" using True by (simp add: kv1_def)
  have c: "kv_checked nofile (kvs i) =
      (let kv2 = (if kv_value kv1 \<noteq> None \<and> strchr (the (kv_value kv1)) CHR ''$''
                 then kv1\<lparr>kv_flags := insert KV_FLAG_MACRO (kv_flags kv1)\<rparr> else kv1)
      in if kv_key kv2 \<noteq> None \<and> strpbrk (the (kv_key kv2)) ''*?[''
         then kv2\<lparr>kv_flags := insert KV_FLAG_GLOBBING (kv_flags kv2)\<rparr> else kv2)"
    unfolding kv_checked_def kv1_def Let_def ..
  have "rule_add_kvs nofile dir (i # is) kvs =
      (if kv_type kv1 \<in> {KEY_TYPE_QUERY, KEY_TYPE_PATH, KEY_TYPE_URL} \<and> dir \<noteq> RELAY_DIR_REQUEST
       then (False, kvs(i := kv1))
       else rule_add_kvs nofile dir is (kvs(i := kv_checked nofile (kvs i))))"
    unfolding c using True by (simp add: Let_def kv1_def[symmetric])
  then show ?thesis using True t by (simp add: kv1_def del: rule_add_kvs.simps)
qed

lemma rule_add_kvs_ok:
  "distinct is \<Longrightarrow> rule_add_kvs nofile dir is kvs = (True, kvs') \<Longrightarrow>
     kvs' = (\<lambda>i. if i \<in> set is \<and> kv_type (kvs i) = i then kv_checked nofile (kvs i) else kvs i)"
proof (induction "is" arbitrary: kvs)
  case Nil
  then show ?case by simp
next
  case (Cons i "is")
  show ?case
  proof (cases "kv_type (kvs i) = i")
    case False
    with Cons.prems have "rule_add_kvs nofile dir is kvs = (True, kvs')"
      by (simp add: rule_add_kvs_step del: rule_add_kvs.simps)
    with Cons have "kvs' = (\<lambda>j. if j \<in> set is \<and> kv_type (kvs j) = j then kv_checked nofile (kvs j) else kvs j)"
      by simp
    with False show ?thesis by auto
  next
    case True
    with Cons.prems have r: "rule_add_kvs nofile dir is (kvs(i := kv_checked nofile (kvs i))) = (True, kvs')"
      by (simp add: rule_add_kvs_step del: rule_add_kvs.simps split: if_splits)
    from Cons.prems have d: "distinct is" "i \<notin> set is" by simp_all
    from Cons.IH[OF d(1) r] d(2) True show ?thesis by (auto simp: fun_eq_iff)
  qed
qed

lemma rule_add_kvs_fail:
  "i \<in> set is \<Longrightarrow> kv_type (kvs i) = i \<Longrightarrow> i \<in> {KEY_TYPE_QUERY, KEY_TYPE_PATH, KEY_TYPE_URL} \<Longrightarrow>
     dir \<noteq> RELAY_DIR_REQUEST \<Longrightarrow> distinct is \<Longrightarrow> fst (rule_add_kvs nofile dir is kvs) = False"
proof (induction "is" arbitrary: kvs)
  case Nil
  then show ?case by simp
next
  case (Cons j "is")
  show ?case
  proof (cases "j = i")
    case True
    with Cons.prems show ?thesis by (simp add: rule_add_kvs_step del: rule_add_kvs.simps)
  next
    case False
    with Cons.prems have i: "i \<in> set is" "distinct is" by simp_all
    have ih: "fst (rule_add_kvs nofile dir is k) = False" if "kv_type (k i) = i" for k
      using that i Cons.prems(3,4) by (intro Cons.IH) simp_all
    have a: "fst (rule_add_kvs nofile dir is kvs) = False"
      using Cons.prems(2) by (rule ih)
    have "kv_type ((kvs(j := kv_checked nofile (kvs j))) i) = i"
      using False Cons.prems(2) by simp
    then have b: "fst (rule_add_kvs nofile dir is (kvs(j := kv_checked nofile (kvs j)))) = False"
      by (rule ih)
    from a b show ?thesis by (simp add: rule_add_kvs_step del: rule_add_kvs.simps)
  qed
qed

lemma key_types_all: "i \<in> set key_types" "distinct key_types"
  by (cases i; simp add: key_types_def) (simp add: key_types_def)

lemma rule_add_lines_rules:
  "r \<in> set (rule_add_lines rule bufs) \<Longrightarrow>
     \<exists>buf\<in>set bufs. rule_line buf \<noteq> [] \<and> hd (rule_line buf) \<noteq> CHR ''#''
        \<and> r = rule\<lparr>rule_kv := rule_setkey (rule_line buf) key_types (rule_kv rule)\<rparr>"
  by (induction bufs) (auto simp: Let_def rule_inherit_def split: if_splits)

lemma rule_add_kvs_checked:
  "rule_add_kvs nofile (rule_dir rule) key_types (rule_kv rule) = (True, kvs) \<Longrightarrow>
     kvs = (\<lambda>i. if kv_type (rule_kv rule i) = i then kv_checked nofile (rule_kv rule i)
                 else rule_kv rule i)"
  using rule_add_kvs_ok[OF key_types_all(2), of nofile "rule_dir rule" "rule_kv rule" kvs]
  by (simp add: key_types_all(1))

lemma kv_checked_fields:
  "kv_type (kv_checked nofile kv) = kv_type kv"
  "kv_value (kv_checked nofile kv) = kv_value kv"
  "kv_option (kv_checked nofile kv) = kv_option kv"
  "kv_key (kv_checked nofile kv)
     = (if kv_option kv = KEY_OPTION_LOG \<and> kv_key kv = None \<and> nofile then Some ''*'' else kv_key kv)"
  "kv_flags (kv_checked nofile kv)
     = kv_flags kv \<union> (if has_dollar (kv_value kv) then {KV_FLAG_MACRO} else {})
         \<union> (if has_glob (kv_key (kv_checked nofile kv)) then {KV_FLAG_GLOBBING} else {})"
  by (auto simp: kv_checked_def Let_def has_glob_def has_dollar_def strpbrk_glob strchr_def
      split: option.splits)

lemma rule_add_lines_map:
  "rule_add_lines rule bufs
     = map (\<lambda>line. rule\<lparr>rule_kv := rule_setkey line key_types (rule_kv rule)\<rparr>) (rule_lines bufs)"
  by (induction bufs) (simp_all add: rule_lines_def Let_def rule_inherit_def)

lemma rule_add_kvs_succeeds:
  "\<forall>i\<in>set is. kv_type (kvs i) = i \<and> i \<in> {KEY_TYPE_QUERY, KEY_TYPE_PATH, KEY_TYPE_URL}
       \<longrightarrow> dir = RELAY_DIR_REQUEST \<Longrightarrow>
     fst (rule_add_kvs nofile dir is kvs) = True"
proof (induction "is" arbitrary: kvs)
  case Nil
  show ?case by simp
next
  case (Cons j "is")
  have ih: "fst (rule_add_kvs nofile dir is k) = True" if "\<forall>i. kv_type (k i) = kv_type (kvs i)" for k
    using that Cons.prems by (intro Cons.IH) simp
  have a: "fst (rule_add_kvs nofile dir is kvs) = True" by (rule ih) simp
  have b: "fst (rule_add_kvs nofile dir is (kvs(j := kv_checked nofile (kvs j)))) = True"
    by (rule ih) (simp add: kv_checked_fields)
  from Cons.prems have c: "kv_type (kvs j) = j \<and> j \<in> {KEY_TYPE_QUERY, KEY_TYPE_PATH, KEY_TYPE_URL}
      \<longrightarrow> dir = RELAY_DIR_REQUEST" by simp
  from a b c show ?case by (auto simp: rule_add_kvs_step simp del: rule_add_kvs.simps)
qed

lemma rule_add_nofile_stored:
  assumes a: "rule_add fopen proto rule None = (0, proto')"
  shows "rules proto' = rules proto @ [rule\<lparr>rule_kv :=
           (\<lambda>i. if kv_type (rule_kv rule i) = i then kv_checked True (rule_kv rule i)
                 else rule_kv rule i)\<rparr>]"
proof -
  from a obtain kvs where k: "rule_add_kvs True (rule_dir rule) key_types (rule_kv rule) = (True, kvs)"
    and p: "proto' = proto\<lparr>rules := rules proto @ [rule\<lparr>rule_kv := kvs\<rparr>]\<rparr>"
    by (auto simp: rule_add_def split: prod.splits bool.splits)
  from rule_add_kvs_checked[OF k] p show ?thesis by simp
qed

lemma rule_add_file_stored:
  assumes a: "rule_add fopen proto rule (Some f) = (0, proto')"
  shows "\<exists>bufs. fopen f = Some bufs
     \<and> rules proto' = rules proto @ map (\<lambda>line. rule\<lparr>rule_kv :=
           (\<lambda>i. if kv_type (rule_kv rule i) = i
                 then (kv_checked False (rule_kv rule i))\<lparr>kv_key := Some line\<rparr>
                 else rule_kv rule i)\<rparr>) (rule_lines bufs)"
proof -
  from a obtain kvs bufs where k: "rule_add_kvs False (rule_dir rule) key_types (rule_kv rule) = (True, kvs)"
    and o: "fopen f = Some bufs"
    and p: "proto' = proto\<lparr>rules := rules proto @ rule_add_lines (rule\<lparr>rule_kv := kvs\<rparr>) bufs\<rparr>"
    by (auto simp: rule_add_def split: prod.splits bool.splits option.splits)
  note kv = rule_add_kvs_checked[OF k]
  have "rule_setkey line key_types kvs =
      (\<lambda>i. if kv_type (rule_kv rule i) = i
                 then (kv_checked False (rule_kv rule i))\<lparr>kv_key := Some line\<rparr>
                 else rule_kv rule i)" for line
    unfolding kv by (auto simp: rule_setkey_def key_types_all(1) kv_checked_fields fun_eq_iff)
  with o p show ?thesis by (simp add: rule_add_lines_map)
qed

text \<open>
  C9 (as amended). For every rule accepted by \<open>rule_add\<close> and every populated pattern in it,
  \<open>MACRO\<close> is set whenever the value holds \<open>$\<close>; \<open>GLOBBING\<close> is set whenever the key holds one
  of \<open>*?[\<close> when the rule was given without a rule file. A populated pattern of type \<open>QUERY\<close>,
  \<open>PATH\<close> or \<open>URL\<close> in a rule whose direction is not \<open>REQUEST\<close> makes \<open>rule_add\<close> fail, and
  without such a pattern \<open>rule_add\<close> fails only when the rule file cannot be opened.

  The rules that \<open>rule_add\<close> stores are those given. Without a rule file it appends the rule
  itself; the patterns that are not populated are untouched, and a populated pattern keeps
  its type, value and option, and its key but for the \<open>*\<close> that a \<open>log\<close> pattern without a
  key gets; to its flags are added the two of the specification, computed from the key and
  value it is stored with. With a rule file it appends one copy of the rule for each line of
  the file that is neither empty nor a comment, in the order of the file; the populated
  patterns of a copy have the line as their key, and the flags that the first loop has
  computed from the rule as given.
\<close>

theorem rule_add_flags:
  "(rule_add fopen proto rule None = (0, proto') \<longrightarrow>
      (\<exists>r. rules proto' = rules proto @ [r]
         \<and> r\<lparr>rule_kv := rule_kv rule\<rparr> = rule
         \<and> (\<forall>i. kv_type (rule_kv rule i) \<noteq> i \<longrightarrow> rule_kv r i = rule_kv rule i)
         \<and> (\<forall>i. kv_type (rule_kv rule i) = i \<longrightarrow>
               kv_type (rule_kv r i) = i
               \<and> kv_value (rule_kv r i) = kv_value (rule_kv rule i)
               \<and> kv_option (rule_kv r i) = kv_option (rule_kv rule i)
               \<and> kv_key (rule_kv r i) =
                   (if kv_option (rule_kv rule i) = KEY_OPTION_LOG \<and> kv_key (rule_kv rule i) = None
                    then Some ''*'' else kv_key (rule_kv rule i))
               \<and> kv_flags (rule_kv r i) = kv_flags (rule_kv rule i)
                   \<union> (if has_dollar (kv_value (rule_kv r i)) then {KV_FLAG_MACRO} else {})
                   \<union> (if has_glob (kv_key (rule_kv r i)) then {KV_FLAG_GLOBBING} else {})
               \<and> flags_spec (rule_kv r i))))
   \<and> (rule_add fopen proto rule (Some f) = (0, proto') \<longrightarrow>
      (\<exists>bufs rs. fopen f = Some bufs \<and> rules proto' = rules proto @ rs
         \<and> list_all2 (\<lambda>r line.
               r\<lparr>rule_kv := rule_kv rule\<rparr> = rule
               \<and> (\<forall>i. kv_type (rule_kv rule i) \<noteq> i \<longrightarrow> rule_kv r i = rule_kv rule i)
               \<and> (\<forall>i. kv_type (rule_kv rule i) = i \<longrightarrow>
                     kv_type (rule_kv r i) = i
                     \<and> kv_value (rule_kv r i) = kv_value (rule_kv rule i)
                     \<and> kv_option (rule_kv r i) = kv_option (rule_kv rule i)
                     \<and> kv_key (rule_kv r i) = Some line
                     \<and> kv_flags (rule_kv r i) = kv_flags (rule_kv rule i)
                         \<union> (if has_dollar (kv_value (rule_kv r i)) then {KV_FLAG_MACRO} else {})
                         \<union> (if has_glob (kv_key (rule_kv rule i)) then {KV_FLAG_GLOBBING} else {})
                     \<and> (has_dollar (kv_value (rule_kv r i))
                          \<longrightarrow> KV_FLAG_MACRO \<in> kv_flags (rule_kv r i))))
             rs (rule_lines bufs)))
   \<and> (kv_type (rule_kv rule i) = i \<and> i \<in> {KEY_TYPE_QUERY, KEY_TYPE_PATH, KEY_TYPE_URL}
        \<and> rule_dir rule \<noteq> RELAY_DIR_REQUEST
      \<longrightarrow> rule_add fopen proto rule rulefile = (-1, proto))
   \<and> ((\<forall>i. kv_type (rule_kv rule i) = i \<and> i \<in> {KEY_TYPE_QUERY, KEY_TYPE_PATH, KEY_TYPE_URL}
            \<longrightarrow> rule_dir rule = RELAY_DIR_REQUEST)
      \<longrightarrow> fst (rule_add fopen proto rule rulefile)
            = (case rulefile of None \<Rightarrow> 0 | Some f \<Rightarrow> if fopen f = None then -1 else 0))"
proof -
  have A: "\<exists>r. rules proto' = rules proto @ [r]
         \<and> r\<lparr>rule_kv := rule_kv rule\<rparr> = rule
         \<and> (\<forall>i. kv_type (rule_kv rule i) \<noteq> i \<longrightarrow> rule_kv r i = rule_kv rule i)
         \<and> (\<forall>i. kv_type (rule_kv rule i) = i \<longrightarrow>
               kv_type (rule_kv r i) = i
               \<and> kv_value (rule_kv r i) = kv_value (rule_kv rule i)
               \<and> kv_option (rule_kv r i) = kv_option (rule_kv rule i)
               \<and> kv_key (rule_kv r i) =
                   (if kv_option (rule_kv rule i) = KEY_OPTION_LOG \<and> kv_key (rule_kv rule i) = None
                    then Some ''*'' else kv_key (rule_kv rule i))
               \<and> kv_flags (rule_kv r i) = kv_flags (rule_kv rule i)
                   \<union> (if has_dollar (kv_value (rule_kv r i)) then {KV_FLAG_MACRO} else {})
                   \<union> (if has_glob (kv_key (rule_kv r i)) then {KV_FLAG_GLOBBING} else {})
               \<and> flags_spec (rule_kv r i))"
    if a: "rule_add fopen proto rule None = (0, proto')"
    unfolding rule_add_nofile_stored[OF a]
    by (intro exI conjI, rule refl) (simp_all add: kv_checked_fields flags_spec_kv_checked)
  have B: "\<exists>bufs rs. fopen f = Some bufs \<and> rules proto' = rules proto @ rs
         \<and> list_all2 (\<lambda>r line.
               r\<lparr>rule_kv := rule_kv rule\<rparr> = rule
               \<and> (\<forall>i. kv_type (rule_kv rule i) \<noteq> i \<longrightarrow> rule_kv r i = rule_kv rule i)
               \<and> (\<forall>i. kv_type (rule_kv rule i) = i \<longrightarrow>
                     kv_type (rule_kv r i) = i
                     \<and> kv_value (rule_kv r i) = kv_value (rule_kv rule i)
                     \<and> kv_option (rule_kv r i) = kv_option (rule_kv rule i)
                     \<and> kv_key (rule_kv r i) = Some line
                     \<and> kv_flags (rule_kv r i) = kv_flags (rule_kv rule i)
                         \<union> (if has_dollar (kv_value (rule_kv r i)) then {KV_FLAG_MACRO} else {})
                         \<union> (if has_glob (kv_key (rule_kv rule i)) then {KV_FLAG_GLOBBING} else {})
                     \<and> (has_dollar (kv_value (rule_kv r i))
                          \<longrightarrow> KV_FLAG_MACRO \<in> kv_flags (rule_kv r i))))
             rs (rule_lines bufs)"
    if a: "rule_add fopen proto rule (Some f) = (0, proto')"
  proof -
    from rule_add_file_stored[OF a] obtain bufs where
      o: "fopen f = Some bufs"
      and p: "rules proto' = rules proto @ map (\<lambda>line. rule\<lparr>rule_kv :=
           (\<lambda>i. if kv_type (rule_kv rule i) = i
                 then (kv_checked False (rule_kv rule i))\<lparr>kv_key := Some line\<rparr>
                 else rule_kv rule i)\<rparr>) (rule_lines bufs)"
      by blast
    show ?thesis
      by (intro exI conjI, rule o, rule p)
        (simp add: list_all2_map1 list_all2_same kv_checked_fields)
  qed
  have C: "rule_add fopen proto rule rulefile = (-1, proto)"
    if "kv_type (rule_kv rule i) = i \<and> i \<in> {KEY_TYPE_QUERY, KEY_TYPE_PATH, KEY_TYPE_URL}
        \<and> rule_dir rule \<noteq> RELAY_DIR_REQUEST"
  proof -
    from that have "fst (rule_add_kvs (rulefile = None) (rule_dir rule) key_types (rule_kv rule)) = False"
      by (intro rule_add_kvs_fail[where i = i]) (simp_all add: key_types_all)
    then show ?thesis by (auto simp: rule_add_def split: prod.splits)
  qed
  have D: "fst (rule_add fopen proto rule rulefile)
            = (case rulefile of None \<Rightarrow> 0 | Some f \<Rightarrow> if fopen f = None then -1 else 0)"
    if "\<forall>i. kv_type (rule_kv rule i) = i \<and> i \<in> {KEY_TYPE_QUERY, KEY_TYPE_PATH, KEY_TYPE_URL}
            \<longrightarrow> rule_dir rule = RELAY_DIR_REQUEST"
  proof -
    from that have "fst (rule_add_kvs (rulefile = None) (rule_dir rule) key_types (rule_kv rule)) = True"
      by (intro rule_add_kvs_succeeds) blast
    then show ?thesis by (auto simp: rule_add_def split: prod.splits option.splits)
  qed
  from A B C D show ?thesis by blast
qed

lemma rule_add_nofile_value:
  "rule_add fopen_hosts \<lparr>rules = []\<rparr> (rule_header (Some ''X-*'') (Some ''$HOST'')) None
     = (0, \<lparr>rules = [(rule_header (Some ''X-*'') (Some ''$HOST''))\<lparr>rule_kv :=
          (rule_kv (rule_header (Some ''X-*'') (Some ''$HOST'')))
            (KEY_TYPE_NONE := kv_none,
             KEY_TYPE_HEADER := \<lparr>kv_key = Some ''X-*'', kv_value = Some ''$HOST'',
               kv_type = KEY_TYPE_HEADER, kv_option = KEY_OPTION_NONE,
               kv_flags = {KV_FLAG_GLOBBING, KV_FLAG_MACRO}\<rparr>)\<rparr>]\<rparr>)"
  by (simp add: rule_add_def rule_header_def kv_none_def key_types_def strchr_def strpbrk_def
      Let_def)

lemma rule_add_file_value:
  "fst (rule_add fopen_hosts \<lparr>rules = []\<rparr> (rule_header None (Some ''$HOST'')) (Some ''/etc/hosts.list'')) = 0
   \<and> map (\<lambda>r. rule_kv r KEY_TYPE_HEADER)
        (rules (snd (rule_add fopen_hosts \<lparr>rules = []\<rparr> (rule_header None (Some ''$HOST''))
           (Some ''/etc/hosts.list''))))
      = [\<lparr>kv_key = Some ''*.a'', kv_value = Some ''$HOST'', kv_type = KEY_TYPE_HEADER,
           kv_option = KEY_OPTION_NONE, kv_flags = {KV_FLAG_MACRO}\<rparr>]"
  by (simp add: rule_add_def rule_header_def kv_none_def key_types_def strchr_def strpbrk_def
      Let_def fopen_hosts_def rule_line_def rule_setkey_def rule_inherit_def)

lemma rule_lines_hosts:
  "rule_lines [[CHR ''#'', CHR '' '', CHR ''h'', CHR 0x0A], [CHR 0x0A],
               [CHR ''*'', CHR ''.'', CHR ''a'', CHR 0x0A]] = [''*.a'']"
  by (simp add: rule_lines_def rule_line_def)

theorem rule_add_flags_witness:
  "fst (rule_add fopen_hosts \<lparr>rules = []\<rparr> (rule_header (Some ''X-*'') (Some ''$HOST'')) None) = 0
   \<and> length (rules (snd (rule_add fopen_hosts \<lparr>rules = []\<rparr>
          (rule_header (Some ''X-*'') (Some ''$HOST'')) None))) = 1
   \<and> kv_type (rule_kv (rule_header (Some ''X-*'') (Some ''$HOST'')) KEY_TYPE_HEADER) = KEY_TYPE_HEADER
   \<and> kv_key (rule_kv (hd (rules (snd (rule_add fopen_hosts \<lparr>rules = []\<rparr>
          (rule_header (Some ''X-*'') (Some ''$HOST'')) None)))) KEY_TYPE_HEADER) = Some ''X-*''
   \<and> kv_flags (rule_kv (hd (rules (snd (rule_add fopen_hosts \<lparr>rules = []\<rparr>
          (rule_header (Some ''X-*'') (Some ''$HOST'')) None)))) KEY_TYPE_HEADER)
        = {KV_FLAG_GLOBBING, KV_FLAG_MACRO}
   \<and> fst (rule_add fopen_hosts \<lparr>rules = []\<rparr> (rule_header None (Some ''$HOST''))
          (Some ''/etc/hosts.list'')) = 0
   \<and> length (rules (snd (rule_add fopen_hosts \<lparr>rules = []\<rparr> (rule_header None (Some ''$HOST''))
          (Some ''/etc/hosts.list'')))) = 1
   \<and> kv_key (rule_kv (hd (rules (snd (rule_add fopen_hosts \<lparr>rules = []\<rparr>
          (rule_header None (Some ''$HOST'')) (Some ''/etc/hosts.list''))))) KEY_TYPE_HEADER)
        = Some ''*.a''
   \<and> KV_FLAG_MACRO \<in> kv_flags (rule_kv (hd (rules (snd (rule_add fopen_hosts \<lparr>rules = []\<rparr>
          (rule_header None (Some ''$HOST'')) (Some ''/etc/hosts.list''))))) KEY_TYPE_HEADER)
   \<and> kv_type (rule_kv rule_query_response KEY_TYPE_QUERY) = KEY_TYPE_QUERY
   \<and> rule_dir rule_query_response \<noteq> RELAY_DIR_REQUEST
   \<and> rule_add fopen_hosts \<lparr>rules = []\<rparr> rule_query_response None = (-1, \<lparr>rules = []\<rparr>)"
proof -
  let ?rule = "rule_header (Some ''X-*'') (Some ''$HOST'')"
  let ?p = "snd (rule_add fopen_hosts \<lparr>rules = []\<rparr> ?rule None)"
  let ?given = "rule_header None (Some ''$HOST'')"
  let ?q = "snd (rule_add fopen_hosts \<lparr>rules = []\<rparr> ?given (Some ''/etc/hosts.list''))"
  have a: "fst (rule_add fopen_hosts \<lparr>rules = []\<rparr> ?rule None) = 0"
    "fst (rule_add fopen_hosts \<lparr>rules = []\<rparr> ?given (Some ''/etc/hosts.list'')) = 0"
    using rule_add_nofile_value rule_add_file_value by simp_all
  have v: "rule_add fopen_hosts \<lparr>rules = []\<rparr> ?rule None = (0, ?p)"
    using a(1) by (simp add: prod_eq_iff)
  have h: "kv_type (rule_kv ?rule KEY_TYPE_HEADER) = KEY_TYPE_HEADER"
    "kv_key (rule_kv ?rule KEY_TYPE_HEADER) = Some ''X-*''"
    "kv_value (rule_kv ?rule KEY_TYPE_HEADER) = Some ''$HOST''"
    "kv_option (rule_kv ?rule KEY_TYPE_HEADER) = KEY_OPTION_NONE"
    "kv_flags (rule_kv ?rule KEY_TYPE_HEADER) = {}"
    by (simp_all add: rule_header_def kv_none_def)
  note t = rule_add_flags[where fopen = fopen_hosts and proto = "\<lparr>rules = []\<rparr>" and rule = ?rule
      and proto' = ?p and f = "[]" and i = KEY_TYPE_NONE and rulefile = None]
  from conjunct1[OF t] v obtain r where r: "rules ?p = [r]"
    and s: "\<forall>i. kv_type (rule_kv ?rule i) = i \<longrightarrow>
               kv_type (rule_kv r i) = i
               \<and> kv_value (rule_kv r i) = kv_value (rule_kv ?rule i)
               \<and> kv_option (rule_kv r i) = kv_option (rule_kv ?rule i)
               \<and> kv_key (rule_kv r i) =
                   (if kv_option (rule_kv ?rule i) = KEY_OPTION_LOG \<and> kv_key (rule_kv ?rule i) = None
                    then Some ''*'' else kv_key (rule_kv ?rule i))
               \<and> kv_flags (rule_kv r i) = kv_flags (rule_kv ?rule i)
                   \<union> (if has_dollar (kv_value (rule_kv r i)) then {KV_FLAG_MACRO} else {})
                   \<union> (if has_glob (kv_key (rule_kv r i)) then {KV_FLAG_GLOBBING} else {})
               \<and> flags_spec (rule_kv r i)"
    by auto
  from s h have 1: "kv_key (rule_kv r KEY_TYPE_HEADER) = Some ''X-*''"
    "kv_flags (rule_kv r KEY_TYPE_HEADER) = {KV_FLAG_GLOBBING, KV_FLAG_MACRO}"
    by (simp_all add: has_dollar_def has_glob_def)
  have w: "rule_add fopen_hosts \<lparr>rules = []\<rparr> ?given (Some ''/etc/hosts.list'') = (0, ?q)"
    using a(2) by (simp add: prod_eq_iff)
  have g: "kv_type (rule_kv ?given KEY_TYPE_HEADER) = KEY_TYPE_HEADER"
    "kv_value (rule_kv ?given KEY_TYPE_HEADER) = Some ''$HOST''"
    by (simp_all add: rule_header_def kv_none_def)
  note u = rule_add_flags[where fopen = fopen_hosts and proto = "\<lparr>rules = []\<rparr>" and rule = ?given
      and proto' = ?q and f = "''/etc/hosts.list''" and i = KEY_TYPE_NONE and rulefile = None]
  from conjunct1[OF conjunct2[OF u]] w obtain bufs rs where
    o: "fopen_hosts ''/etc/hosts.list'' = Some bufs" and rs: "rules ?q = rs"
    and l: "list_all2 (\<lambda>r line.
               r\<lparr>rule_kv := rule_kv ?given\<rparr> = ?given
               \<and> (\<forall>i. kv_type (rule_kv ?given i) \<noteq> i \<longrightarrow> rule_kv r i = rule_kv ?given i)
               \<and> (\<forall>i. kv_type (rule_kv ?given i) = i \<longrightarrow>
                     kv_type (rule_kv r i) = i
                     \<and> kv_value (rule_kv r i) = kv_value (rule_kv ?given i)
                     \<and> kv_option (rule_kv r i) = kv_option (rule_kv ?given i)
                     \<and> kv_key (rule_kv r i) = Some line
                     \<and> kv_flags (rule_kv r i) = kv_flags (rule_kv ?given i)
                         \<union> (if has_dollar (kv_value (rule_kv r i)) then {KV_FLAG_MACRO} else {})
                         \<union> (if has_glob (kv_key (rule_kv ?given i)) then {KV_FLAG_GLOBBING} else {})
                     \<and> (has_dollar (kv_value (rule_kv r i))
                          \<longrightarrow> KV_FLAG_MACRO \<in> kv_flags (rule_kv r i))))
             rs (rule_lines bufs)"
    by auto
  from o have "rule_lines bufs = [''*.a'']"
    using rule_lines_hosts by (auto simp: fopen_hosts_def)
  with l obtain r' where r': "rs = [r']"
    and k: "\<forall>i. kv_type (rule_kv ?given i) = i \<longrightarrow>
                     kv_key (rule_kv r' i) = Some ''*.a''
                     \<and> kv_value (rule_kv r' i) = kv_value (rule_kv ?given i)
                     \<and> (has_dollar (kv_value (rule_kv r' i))
                          \<longrightarrow> KV_FLAG_MACRO \<in> kv_flags (rule_kv r' i))"
    by (auto simp: list_all2_Cons2)
  from k g have 2: "kv_key (rule_kv r' KEY_TYPE_HEADER) = Some ''*.a''"
    "KV_FLAG_MACRO \<in> kv_flags (rule_kv r' KEY_TYPE_HEADER)"
    by (simp_all add: has_dollar_def)
  have q: "kv_type (rule_kv rule_query_response KEY_TYPE_QUERY) = KEY_TYPE_QUERY"
    "rule_dir rule_query_response \<noteq> RELAY_DIR_REQUEST"
    by (simp_all add: rule_query_response_def)
  note x = rule_add_flags[where fopen = fopen_hosts and proto = "\<lparr>rules = []\<rparr>"
      and rule = rule_query_response and i = KEY_TYPE_QUERY and rulefile = None
      and f = "[]" and proto' = "\<lparr>rules = []\<rparr>"]
  from conjunct1[OF conjunct2[OF conjunct2[OF x]]] q
  have 3: "rule_add fopen_hosts \<lparr>rules = []\<rparr> rule_query_response None = (-1, \<lparr>rules = []\<rparr>)"
    by simp
  show ?thesis
    using a r 1 h(1) rs r' 2 q 3 by simp
qed

text \<open>
  C9, the claim as stated, fails for a rule that is accepted with a rule file: the header
  rule has no key of its own, the file \<open>/etc/hosts.list\<close> has a comment, an empty line and
  the line \<open>*.a\<close>. \<open>rule_add\<close> returns 0 and appends a rule whose populated header pattern
  has the key \<open>*.a\<close> and no \<open>GLOBBING\<close> flag.
\<close>

theorem rule_add_file_globbing_counterexample:
  "fst (rule_add fopen_hosts \<lparr>rules = []\<rparr> (rule_header None None) (Some ''/etc/hosts.list'')) = 0
   \<and> map (\<lambda>r. rule_kv r KEY_TYPE_HEADER)
        (rules (snd (rule_add fopen_hosts \<lparr>rules = []\<rparr> (rule_header None None)
           (Some ''/etc/hosts.list''))))
      = [\<lparr>kv_key = Some ''*.a'', kv_value = None, kv_type = KEY_TYPE_HEADER,
           kv_option = KEY_OPTION_NONE, kv_flags = {}\<rparr>]"
  by (simp add: rule_add_def rule_header_def kv_none_def key_types_def strchr_def strpbrk_def
      Let_def fopen_hosts_def rule_line_def rule_setkey_def rule_inherit_def)

subsection \<open>Glob scan and exact lookup\<close>

lemma of_char_tolower_zero: "(of_char (tolower c) :: nat) = 0 \<longleftrightarrow> c = CHR 0x00"
proof
  assume z: "(of_char (tolower c) :: nat) = 0"
  have "\<not> isupper c"
  proof
    assume u: "isupper c"
    then have "(of_char (tolower c) :: nat) = ((of_char c :: nat) + 32) mod 256"
      by (simp add: tolower_def)
    with u z show False by (simp add: isupper_def)
  qed
  with z have "(of_char c :: nat) = of_char (CHR 0x00)" by (simp add: tolower_def)
  then show "c = CHR 0x00" by (simp only: of_char_eq_iff)
next
  assume "c = CHR 0x00"
  then show "(of_char (tolower c) :: nat) = 0" by (simp add: tolower_def isupper_def)
qed

lemma tolower_NUL: "tolower c = CHR 0x00 \<longleftrightarrow> c = CHR 0x00"
  using of_char_tolower_zero[of c] of_char_eq_iff[of "tolower c" "CHR 0x00", where ?'a = nat]
  by simp

lemma of_char_diff_zero: "int (of_char a) - int (of_char b) = 0 \<longleftrightarrow> a = b"
  by simp

lemma strcasecmp_antisym: "strcasecmp a b = - strcasecmp b a"
  by (induction a b rule: strcasecmp.induct) auto

lemma strcasecmp_zero:
  "cstring a \<Longrightarrow> cstring b \<Longrightarrow> strcasecmp a b = 0 \<longleftrightarrow> map tolower a = map tolower b"
  by (induction a b rule: strcasecmp.induct)
     (auto simp: cstring_def of_char_tolower_zero)

lemma strcasecmp_cong: "map tolower b = map tolower c \<Longrightarrow> strcasecmp a b = strcasecmp a c"
proof (induction a b arbitrary: c rule: strcasecmp.induct)
  case 1
  then show ?case by simp
next
  case (2 b bs)
  then show ?case by (cases c) auto
next
  case (3 a as)
  then show ?case by simp
next
  case (4 a as b bs)
  then show ?case by (cases c) auto
qed

lemma strcasecmp_trans:
  "strcasecmp a b < 0 \<Longrightarrow> strcasecmp b c < 0 \<Longrightarrow> strcasecmp a c < 0"
proof (induction a b arbitrary: c rule: strcasecmp.induct)
  case 1
  then show ?case by simp
next
  case (2 b bs)
  then show ?case by (cases c) (auto split: if_splits)
next
  case (3 a as)
  then show ?case by simp
next
  case (4 a as b bs)
  then show ?case by (cases c) (auto split: if_splits)
qed

lemma fnmatch_literal:
  "literal_key key \<Longrightarrow> fnmatch rangematch key s \<longleftrightarrow> map tolower key = map tolower s"
proof (induction key arbitrary: s)
  case Nil
  show ?case by auto
next
  case (Cons c p)
  then have l: "literal_key p" and c: "c \<noteq> CHR ''*''" "c \<noteq> CHR ''?''" "c \<noteq> CHR ''[''" "c \<noteq> backslash"
    by (simp_all add: literal_key_def)
  show ?case
  proof (cases s)
    case Nil
    with c show ?thesis by simp
  next
    case (Cons t s')
    with c Cons.IH[OF l, of s'] show ?thesis by auto
  qed
qed

lemma find_append:
  "List.find P (xs @ ys) = (case List.find P xs of None \<Rightarrow> List.find P ys | Some x \<Rightarrow> Some x)"
  by (induction xs) auto

lemma kv_find_glob_find:
  assumes "list_all (\<lambda>m. case kv_key m of None \<Rightarrow> False | Some k \<Rightarrow> cstring k) ms"
    and "literal_key key" and "cstring key"
  shows "kv_find_glob rangematch key ms
       = Inr (List.find (\<lambda>m. map tolower (the (kv_key m)) = map tolower key) ms)"
  using assms(1)
proof (induction ms)
  case Nil
  show ?case by simp
next
  case (Cons m ms)
  then obtain k where k: "kv_key m = Some k" by (auto split: option.splits)
  have "fnmatch rangematch key k \<longleftrightarrow> map tolower k = map tolower key"
    using fnmatch_literal[OF assms(2), of rangematch k] by auto
  with Cons k show ?case by simp
qed

lemma RB_FIND_find:
  assumes "cstring key" and "kv_key elm = Some key"
  shows "kvtree_ok keys \<Longrightarrow>
     RB_FIND keys elm = Inr (List.find (\<lambda>m. map tolower (the (kv_key m)) = map tolower key) (inorder keys))"
proof (induction keys)
  case Leaf
  show ?case by simp
next
  case (Node l m r)
  let ?P = "\<lambda>m. map tolower (the (kv_key m)) = map tolower key"
  from Node.prems have ok: "kvtree_ok l" "kvtree_ok r"
    by (auto simp: kvtree_ok_def sorted_wrt_append)
  from Node.prems obtain k where k: "kv_key m = Some k" "cstring k"
    by (auto simp: kvtree_ok_def split: option.splits)
  have keyed: "\<exists>k'. kv_key a = Some k' \<and> cstring k'" if "a \<in> set (inorder l) \<union> set (inorder r)" for a
    using Node.prems that by (auto simp: kvtree_ok_def list_all_iff split: option.splits)
  have below: "strcasecmp k' k < 0" if "a \<in> set (inorder l)" "kv_key a = Some k'" for a k'
    using Node.prems that k by (auto simp: kvtree_ok_def sorted_wrt_append kv_less_def kv_cmp_def)
  have above: "strcasecmp k k' < 0" if "a \<in> set (inorder r)" "kv_key a = Some k'" for a k'
    using Node.prems that k by (auto simp: kvtree_ok_def sorted_wrt_append kv_less_def kv_cmp_def)
  have c: "kv_cmp elm m = Inr (strcasecmp key k)"
    using assms k by (simp add: kv_cmp_def)
  have eq: "?P a \<longleftrightarrow> strcasecmp key k' = 0" if "kv_key a = Some k'" "cstring k'" for a k'
    using strcasecmp_zero[OF assms(1) that(2)] that(1) by auto
  consider (lt) "strcasecmp key k < 0" | (gt) "strcasecmp key k > 0" | (eq) "strcasecmp key k = 0"
    by linarith
  then show ?case
  proof cases
    case lt
    have "\<not> ?P a" if a: "a \<in> set (inorder r)" for a
    proof -
      from keyed a obtain k' where k': "kv_key a = Some k'" "cstring k'" by auto
      from strcasecmp_trans[OF lt above[OF a k'(1)]] have "strcasecmp key k' < 0" .
      with eq[OF k'] show ?thesis by simp
    qed
    moreover have "\<not> ?P m" using eq[OF k] lt by simp
    ultimately have "List.find ?P (m # inorder r) = None"
      by (auto simp: find_None_iff)
    then have "List.find ?P (inorder (Node l m r)) = List.find ?P (inorder l)"
      by (simp add: find_append split: option.splits)
    with Node.IH(1)[OF ok(1)] c lt show ?thesis by simp
  next
    case gt
    then have mk: "strcasecmp k key < 0" using strcasecmp_antisym[of k key] by simp
    have "\<not> ?P a" if a: "a \<in> set (inorder l)" for a
    proof -
      from keyed a obtain k' where k': "kv_key a = Some k'" "cstring k'" by auto
      from strcasecmp_trans[OF below[OF a k'(1)] mk] have "strcasecmp k' key < 0" .
      then have "strcasecmp key k' > 0" using strcasecmp_antisym[of key k'] by simp
      with eq[OF k'] show ?thesis by simp
    qed
    then have n: "List.find ?P (inorder l) = None" by (auto simp: find_None_iff)
    have "\<not> ?P m" using eq[OF k] gt by simp
    with n have "List.find ?P (inorder (Node l m r)) = List.find ?P (inorder r)"
      by (simp add: find_append)
    with Node.IH(2)[OF ok(2)] c gt show ?thesis by simp
  next
    case eq0: eq
    then have same: "map tolower key = map tolower k"
      using strcasecmp_zero[OF assms(1) k(2)] by simp
    have "\<not> ?P a" if a: "a \<in> set (inorder l)" for a
    proof -
      from keyed a obtain k' where k': "kv_key a = Some k'" "cstring k'" by auto
      have "strcasecmp k' key = strcasecmp k' k"
        using strcasecmp_cong[OF same, of k'] .
      with below[OF a k'(1)] have "strcasecmp k' key < 0" by simp
      then have "strcasecmp key k' > 0" using strcasecmp_antisym[of key k'] by simp
      with eq[OF k'] show ?thesis by simp
    qed
    then have n: "List.find ?P (inorder l) = None" by (auto simp: find_None_iff)
    have "?P m" using eq[OF k] eq0 by simp
    with n have "List.find ?P (inorder (Node l m r)) = Some m"
      by (simp add: find_append)
    with c eq0 show ?thesis by simp
  qed
qed

text \<open>
  C6 (as amended). For a well-formed kv-tree and a lookup key that holds none of \<open>*\<close>,
  \<open>?\<close>, \<open>[\<close> and no backslash, \<open>kv_find\<close> returns the same with \<open>KV_FLAG_GLOBBING\<close> set (the
  scan with \<open>fnmatch\<close> under \<open>FNM_CASEFOLD\<close>, in tree order) as with the flag clear
  (\<open>RB_FIND\<close> with \<open>kv_cmp\<close>): the record of the tree whose key equals the lookup key up to
  case, or none.
\<close>

theorem kv_find_parity:
  assumes "literal_key key" and "cstring key" and "kvtree_ok keys"
  shows "kv_find rangematch keys (kv\<lparr>kv_key := Some key, kv_flags := insert KV_FLAG_GLOBBING (kv_flags kv)\<rparr>)
           = kv_find rangematch keys (kv\<lparr>kv_key := Some key, kv_flags := kv_flags kv - {KV_FLAG_GLOBBING}\<rparr>)
         \<and> kv_find rangematch keys (kv\<lparr>kv_key := Some key, kv_flags := kv_flags kv - {KV_FLAG_GLOBBING}\<rparr>)
           = Inr (List.find (\<lambda>m. map tolower (the (kv_key m)) = map tolower key) (inorder keys))"
proof -
  have g: "kv_find rangematch keys (kv\<lparr>kv_key := Some key, kv_flags := insert KV_FLAG_GLOBBING (kv_flags kv)\<rparr>)
      = Inr (List.find (\<lambda>m. map tolower (the (kv_key m)) = map tolower key) (inorder keys))"
    using kv_find_glob_find[OF _ assms(1,2), of "inorder keys" rangematch] assms(3)
    by (simp add: kv_find_def kvtree_ok_def)
  have e: "kv_find rangematch keys (kv\<lparr>kv_key := Some key, kv_flags := kv_flags kv - {KV_FLAG_GLOBBING}\<rparr>)
      = Inr (List.find (\<lambda>m. map tolower (the (kv_key m)) = map tolower key) (inorder keys))"
    using RB_FIND_find[OF assms(2) _ assms(3), of "kv\<lparr>kv_key := Some key, kv_flags := kv_flags kv - {KV_FLAG_GLOBBING}\<rparr>"]
    by (simp add: kv_find_def)
  from g e show ?thesis by simp
qed

lemma headers_ok: "kvtree_ok headers"
  by code_simp

theorem kv_find_parity_witness:
  "literal_key ''hOST'' \<and> cstring ''hOST'' \<and> kvtree_ok headers
   \<and> kv_find rangematch_error headers ((header ''hOST'' [])\<lparr>kv_flags := {KV_FLAG_GLOBBING}\<rparr>)
       = Inr (Some (header ''Host'' ''example.com''))
   \<and> kv_find rangematch_error headers (header ''hOST'' [])
       = Inr (Some (header ''Host'' ''example.com''))"
proof -
  have l: "literal_key ''hOST''" by code_simp
  have c: "cstring ''hOST''" by code_simp
  have v: "kv_find rangematch_error headers (header ''hOST'' [])
       = Inr (Some (header ''Host'' ''example.com''))" by code_simp
  have h: "(header ''hOST'' [])\<lparr>kv_key := Some ''hOST'',
        kv_flags := insert KV_FLAG_GLOBBING (kv_flags (header ''hOST'' []))\<rparr>
      = (header ''hOST'' [])\<lparr>kv_flags := {KV_FLAG_GLOBBING}\<rparr>"
    "(header ''hOST'' [])\<lparr>kv_key := Some ''hOST'',
        kv_flags := kv_flags (header ''hOST'' []) - {KV_FLAG_GLOBBING}\<rparr> = header ''hOST'' []"
    by (simp_all add: header_def)
  from kv_find_parity[OF l c headers_ok, of rangematch_error "header ''hOST'' []"]
  show ?thesis using l c headers_ok v unfolding h by simp
qed

text \<open>
  C6, the claim as stated, fails for a key with a backslash, which is none of \<open>*\<close>, \<open>?\<close>,
  \<open>[\<close>: \<open>fnmatch\<close> takes the backslash as quoting the \<open>h\<close>, so the scan finds the record
  \<open>Host\<close>, while \<open>RB_FIND\<close> compares the backslash itself and finds none.
\<close>

theorem kv_find_backslash_counterexample:
  "kvtree_ok headers
   \<and> list_all (\<lambda>c. c \<noteq> CHR ''*'' \<and> c \<noteq> CHR ''?'' \<and> c \<noteq> CHR ''['')
        [backslash, CHR ''h'', CHR ''o'', CHR ''s'', CHR ''t'']
   \<and> kv_find rangematch_error headers
        ((header [backslash, CHR ''h'', CHR ''o'', CHR ''s'', CHR ''t''] [])\<lparr>kv_flags := {KV_FLAG_GLOBBING}\<rparr>)
       = Inr (Some (header ''Host'' ''example.com''))
   \<and> kv_find rangematch_error headers
        (header [backslash, CHR ''h'', CHR ''o'', CHR ''s'', CHR ''t''] []) = Inr None"
  by code_simp

end
